(* ===== verification/Prelude.thy ===== *)
theory Prelude
  imports Main "HOL-Library.Option_ord"
begin

text \<open>
  Shared vocabulary of the development: the named collections the component theories
  fill, and the generic facts on lists, options and sorting that the components share.
  Option values are ordered by \<open>HOL-Library.Option_ord\<close> (\<open>None\<close> below every
  \<open>Some\<close>), which is the order the document store gives a missing or null field
  against a number.
\<close>

named_theorems js_simps \<open>evaluation rules for the JavaScript value operations\<close>
named_theorems store_simps \<open>evaluation rules for the document store operations\<close>
named_theorems handler_simps \<open>evaluation rules for the request handlers\<close>

subsection \<open>Sum-typed results\<close>

text \<open>
  Every operation that can throw returns \<open>error + 'a\<close>; \<open>sum_bind\<close> sequences two of
  them the way an \<^verbatim>\<open>await\<close> inside one \<^verbatim>\<open>try\<close> block does: the first error
  ends the block.
\<close>

definition sum_bind :: "'e + 'a \<Rightarrow> ('a \<Rightarrow> 'e + 'b) \<Rightarrow> 'e + 'b" where
  "sum_bind r f = (case r of Inl e \<Rightarrow> Inl e | Inr a \<Rightarrow> f a)"

lemma sum_bind_simps [simp]:
  "sum_bind (Inl e) f = Inl e"
  "sum_bind (Inr a) f = f a"
  by (simp_all add: sum_bind_def)

lemma sum_bind_eq_Inr:
  "sum_bind r f = Inr b \<longleftrightarrow> (\<exists>a. r = Inr a \<and> f a = Inr b)"
  by (cases r) auto

subsection \<open>Lists of options\<close>

lemma those_map_Some:
  "those (map f xs) = Some ys \<longleftrightarrow> (\<forall>x \<in> set xs. f x \<noteq> None) \<and> ys = map (the \<circ> f) xs"
  by (induction xs arbitrary: ys) (auto split: option.splits)

lemma those_map_None: "those (map f xs) = None \<longleftrightarrow> (\<exists>x \<in> set xs. f x = None)"
  by (induction xs) (auto split: option.splits)

lemma set_map_filter: "set (List.map_filter f xs) = {y. \<exists>x \<in> set xs. f x = Some y}"
  by (induction xs) (auto split: option.splits)

lemma set_tl_sub: "set (tl xs) \<subseteq> set xs"
  by (cases xs) auto

subsection \<open>Maxima of keys\<close>

text \<open>
  The last element of a list sorted by a key carries the greatest key: the fact behind
  every ``sort descending and take the first'' idiom.
\<close>

lemma sorted_last_is_Max:
  assumes "sorted xs" and "xs \<noteq> []"
  shows "last xs = Max (set xs)"
proof (rule antisym)
  show "last xs \<le> Max (set xs)" using assms(2) by simp
next
  have split: "xs = butlast xs @ [last xs]" using assms(2) by simp
  have "\<forall>y \<in> set xs. y \<le> last xs"
  proof
    fix y assume "y \<in> set xs"
    then have "y \<in> set (butlast xs) \<or> y = last xs" using split
      by (metis Un_iff empty_iff empty_set list.set(2) set_append singleton_iff)
    moreover have "sorted (butlast xs @ [last xs])" using assms(1) split by simp
    ultimately show "y \<le> last xs" by (auto simp: sorted_append)
  qed
  then show "Max (set xs) \<le> last xs" using assms(2) by simp
qed

lemma last_sort_key_Max:
  fixes f :: "'a \<Rightarrow> 'b::linorder"
  assumes "xs \<noteq> []"
  shows "f (last (sort_key f xs)) = Max (f ` set xs)"
proof -
  have ne: "sort_key f xs \<noteq> []" using assms by (metis length_0_conv length_sort)
  have "f (last (sort_key f xs)) = last (map f (sort_key f xs))"
    using ne by (simp add: last_map)
  also have "\<dots> = Max (set (map f (sort_key f xs)))"
    using ne by (intro sorted_last_is_Max) simp_all
  also have "\<dots> = Max (f ` set xs)" by simp
  finally show ?thesis .
qed

text \<open>The greatest of a set of optional keys is \<open>None\<close> exactly when no key is present.\<close>

lemma Max_option_image:
  fixes f :: "'a \<Rightarrow> 'b::linorder option"
  assumes "finite A" and "A \<noteq> {}"
  shows "Max (f ` A) =
    (if \<exists>x \<in> A. f x \<noteq> None then Some (Max {n. \<exists>x \<in> A. f x = Some n}) else None)"
proof (cases "\<exists>x \<in> A. f x \<noteq> None")
  case False
  then have "f ` A = {None}" using assms(2) by auto
  with False show ?thesis by simp
next
  case True
  let ?N = "{n. \<exists>x \<in> A. f x = Some n}"
  have fin: "finite ?N"
  proof -
    have "?N \<subseteq> the ` f ` A" by (force simp: image_iff)
    then show ?thesis using assms(1) by (meson finite_imageI finite_subset)
  qed
  have ne: "?N \<noteq> {}" using True by auto
  have mem: "Some (Max ?N) \<in> f ` A"
  proof -
    have "Max ?N \<in> ?N" using fin ne by (rule Max_in)
    then show ?thesis by (force simp: image_iff)
  qed
  have ub: "\<forall>y \<in> f ` A. y \<le> Some (Max ?N)"
  proof
    fix y assume "y \<in> f ` A"
    then obtain x where x: "x \<in> A" "y = f x" by auto
    show "y \<le> Some (Max ?N)"
    proof (cases "f x")
      case None
      with x show ?thesis by simp
    next
      case (Some n)
      with x fin have "n \<le> Max ?N" by (auto intro: Max_ge)
      with x Some show ?thesis by simp
    qed
  qed
  have "Max (f ` A) = Some (Max ?N)"
    using assms(1) mem ub by (intro Max_eqI) auto
  with True show ?thesis by simp
qed


text \<open>A character code below 256 names the character with that code.\<close>

lemma char_of_eq_iff:
  fixes n :: nat
  assumes "n < 256"
  shows "char_of n = c \<longleftrightarrow> of_char c = n"
proof
  assume "char_of n = c"
  then have "of_char c = n mod 256" by (auto simp: of_char_of)
  with assms show "of_char c = n" by simp
next
  assume "of_char c = n"
  then show "char_of n = c" by (auto simp: char_of_char)
qed

end
