(* ===== verification/Json.thy ===== *)
theory Json
  imports Prelude
begin

text \<open>
  JavaScript values as they reach the server: the results of \<^verbatim>\<open>JSON.parse\<close> on the
  seed files, request bodies after \<^verbatim>\<open>express.json()\<close>, and documents returned by the
  store. Numbers are integers (the ids, dealer ids and years the program computes with);
  a missing property (\<^verbatim>\<open>undefined\<close>) is \<open>None\<close> of \<open>jval option\<close>. Objects are
  association lists, because JavaScript keeps the insertion order of keys and the
  object spread of \<^verbatim>\<open>src/app.js\<close> depends on it. This theory holds the property
  read \<^verbatim>\<open>x.k\<close>, truthiness, the \<^verbatim>\<open>||\<close> operator and the object spread
  \<^verbatim>\<open>{k: v, ...src}\<close>, with the lookup facts the handlers rely on.
\<close>

datatype jval =
    JNull
  | JBool bool
  | JNum int
  | JStr string
  | JArr "jval list"
  | JObj "(string \<times> jval) list"

type_synonym obj = "(string \<times> jval) list"

subsection \<open>Property access, truthiness and \<^verbatim>\<open>||\<close>\<close>

text \<open>\<^verbatim>\<open>x.k\<close>: only an object has own data properties named by the seed keys.\<close>

fun js_prop :: "jval \<Rightarrow> string \<Rightarrow> jval option" where
  "js_prop (JObj ps) k = map_of ps k"
| "js_prop _ k = None"

text \<open>
  ECMAScript ToBoolean: \<^verbatim>\<open>undefined\<close>, \<^verbatim>\<open>null\<close>, \<^verbatim>\<open>false\<close>, \<^verbatim>\<open>0\<close> and
  \<^verbatim>\<open>""\<close> are falsy; every object and array, even an empty one, is truthy.
\<close>

fun js_truthy :: "jval \<Rightarrow> bool" where
  "js_truthy JNull = False"
| "js_truthy (JBool b) = b"
| "js_truthy (JNum n) = (n \<noteq> 0)"
| "js_truthy (JStr s) = (s \<noteq> [])"
| "js_truthy (JArr xs) = True"
| "js_truthy (JObj ps) = True"

definition js_truthy_opt :: "jval option \<Rightarrow> bool" where
  "js_truthy_opt v = (case v of None \<Rightarrow> False | Some x \<Rightarrow> js_truthy x)"

text \<open>\<^verbatim>\<open>a || b\<close>: the left operand when it is truthy, else the right one.\<close>

definition js_or :: "jval option \<Rightarrow> jval \<Rightarrow> jval" where
  "js_or a b = (case a of Some x \<Rightarrow> if js_truthy x then x else b | None \<Rightarrow> b)"

subsection \<open>Objects: lookup, assignment and spread\<close>

definition obj_get :: "obj \<Rightarrow> string \<Rightarrow> jval option" where
  "obj_get ob k = map_of ob k"

text \<open>
  Assigning \<^verbatim>\<open>ob[k] = v\<close>: an existing key keeps its position and takes the new
  value; a new key is appended.
\<close>

fun obj_put :: "string \<Rightarrow> jval \<Rightarrow> obj \<Rightarrow> obj" where
  "obj_put k v [] = [(k, v)]"
| "obj_put k v ((k', v') # ps) =
     (if k = k' then (k, v) # ps else (k', v') # obj_put k v ps)"

text \<open>
  \<^verbatim>\<open>{...target, ...src}\<close> copies the own properties of \<open>src\<close> in order, each one
  an assignment: a key of \<open>src\<close> overrides the same key of \<open>target\<close>.
\<close>

definition obj_spread :: "obj \<Rightarrow> obj \<Rightarrow> obj" where
  "obj_spread target src = foldl (\<lambda>ob (k, v). obj_put k v ob) target src"

text \<open>An object as \<^verbatim>\<open>JSON.parse\<close> or a spread builds it has each key once.\<close>

definition wf_obj :: "obj \<Rightarrow> bool" where
  "wf_obj ob \<longleftrightarrow> distinct (map fst ob)"

text \<open>
  A JavaScript value as \<^verbatim>\<open>JSON.parse\<close> returns it: every object in it, at any
  depth, has each key once (a repeated key in the text keeps one property).
\<close>

fun wf_jval :: "jval \<Rightarrow> bool" where
  "wf_jval (JArr xs) = (\<forall>x \<in> set xs. wf_jval x)"
| "wf_jval (JObj ps) = (distinct (map fst ps) \<and> (\<forall>p \<in> set ps. wf_jval (snd p)))"
| "wf_jval _ = True"

declare js_or_def [js_simps] js_truthy_opt_def [js_simps] obj_get_def [js_simps]
  obj_spread_def [js_simps] wf_obj_def [js_simps]

subsection \<open>Lemmas\<close>

lemma obj_get_Nil [simp]: "obj_get [] k = None"
  by (simp add: obj_get_def)

lemma obj_get_Cons [simp]:
  "obj_get ((k', v') # ps) k = (if k = k' then Some v' else obj_get ps k)"
  by (simp add: obj_get_def)

lemma obj_get_absent: "k \<notin> fst ` set ob \<Longrightarrow> obj_get ob k = None"
  by (simp add: obj_get_def map_of_eq_None_iff)

lemma obj_get_put [simp]:
  "obj_get (obj_put k v ob) k' = (if k' = k then Some v else obj_get ob k')"
proof (induction ob)
  case Nil
  then show ?case by simp
next
  case (Cons p ps)
  then show ?case by (cases p) auto
qed

lemma keys_obj_put [simp]: "fst ` set (obj_put k v ob) = insert k (fst ` set ob)"
proof (induction ob)
  case Nil
  then show ?case by simp
next
  case (Cons p ps)
  obtain a b where "p = (a, b)" by (cases p)
  with Cons show ?case by (cases "k = a") auto
qed

lemma wf_obj_put [simp]: "wf_obj ob \<Longrightarrow> wf_obj (obj_put k v ob)"
proof (induction ob)
  case Nil
  then show ?case by (simp add: wf_obj_def)
next
  case (Cons p ps)
  obtain a b where p: "p = (a, b)" by (cases p)
  show ?case
  proof (cases "k = a")
    case True
    with Cons.prems p show ?thesis by (simp add: wf_obj_def)
  next
    case False
    with Cons p show ?thesis by (simp add: wf_obj_def)
  qed
qed

lemma obj_spread_Cons [simp]:
  "obj_spread target ((k, v) # src) = obj_spread (obj_put k v target) src"
  by (simp add: obj_spread_def)

lemma obj_spread_Nil [simp]: "obj_spread target [] = target"
  by (simp add: obj_spread_def)

lemma wf_obj_spread: "wf_obj target \<Longrightarrow> wf_obj (obj_spread target src)"
  by (induction src arbitrary: target) auto

text \<open>
  The value of a key after a spread: the source's value if the source has the key
  (each key once, as in a parsed object), the target's value otherwise.
\<close>

lemma obj_get_spread:
  "wf_obj src \<Longrightarrow>
   obj_get (obj_spread target src) k =
     (case obj_get src k of Some v \<Rightarrow> Some v | None \<Rightarrow> obj_get target k)"
proof (induction src arbitrary: target)
  case Nil
  then show ?case by simp
next
  case (Cons p src)
  obtain k' v' where p: "p = (k', v')" by (cases p)
  with Cons.prems have wf: "wf_obj src" and nk: "k' \<notin> fst ` set src"
    by (auto simp: wf_obj_def)
  have "obj_get (obj_spread target (p # src)) k = obj_get (obj_spread (obj_put k' v' target) src) k"
    by (simp add: p)
  also have "\<dots> = (case obj_get src k of Some v \<Rightarrow> Some v
                   | None \<Rightarrow> obj_get (obj_put k' v' target) k)"
    using wf by (rule Cons.IH)
  also have "\<dots> = (case obj_get (p # src) k of Some v \<Rightarrow> Some v | None \<Rightarrow> obj_get target k)"
    using nk by (cases "k = k'") (simp_all add: p obj_get_absent split: option.split)
  finally show ?case .
qed

lemma obj_get_spread_absent:
  "obj_get src k = None \<Longrightarrow> obj_get (obj_spread target src) k = obj_get target k"
proof (induction src arbitrary: target)
  case Nil
  then show ?case by simp
next
  case (Cons p src)
  obtain k' v' where p: "p = (k', v')" by (cases p)
  with Cons.prems have "k \<noteq> k'" and "obj_get src k = None" by (auto split: if_splits)
  with Cons.IH show ?case by (simp add: p)
qed

lemma js_or_truthy [simp]: "js_truthy x \<Longrightarrow> js_or (Some x) b = x"
  by (simp add: js_or_def)

lemma js_or_falsy [simp]: "\<not> js_truthy_opt a \<Longrightarrow> js_or a b = b"
  by (cases a) (auto simp: js_or_def js_truthy_opt_def)

end
