(* ===== verification/JsNumber.thy ===== *)
theory JsNumber
  imports Json
begin

text \<open>
  The two ECMAScript string-to-number conversions the program relies on:
  \<^verbatim>\<open>parseInt(s)\<close> (ECMA-262 \<^verbatim>\<open>parseInt\<close> with the radix left undefined), which
  the handlers of \<^verbatim>\<open>/fetchReviews/dealer/:id\<close> and \<^verbatim>\<open>/fetchDealer/:id\<close> apply to
  the path parameter, and \<^verbatim>\<open>Number(s)\<close> (StringToNumber), which the store applies
  when it casts a string to a Number field. \<^verbatim>\<open>NaN\<close> is \<open>None\<close>. Characters are
  bytes, so the white space recognised is the ASCII part of ECMAScript's (tab, line
  feed, vertical tab, form feed, carriage return, space). The value model has integers
  only: \<^verbatim>\<open>parseInt\<close> never yields a fraction, and a string that \<^verbatim>\<open>Number\<close> would
  read as a non-integral value is outside the model and read as \<open>None\<close>.
\<close>

subsection \<open>Digits\<close>

definition js_ws :: "char \<Rightarrow> bool" where
  "js_ws c \<longleftrightarrow> of_char c \<in> {9, 10, 11, 12, 13, 32::nat}"

text \<open>The value of a character as a digit in radix \<open>r\<close> (2 to 36), if it is one.\<close>

definition digit_val :: "nat \<Rightarrow> char \<Rightarrow> nat option" where
  "digit_val r c =
     (let n = of_char c :: nat;
          d = (if 48 \<le> n \<and> n \<le> 57 then Some (n - 48)
               else if 97 \<le> n \<and> n \<le> 122 then Some (n - 87)
               else if 65 \<le> n \<and> n \<le> 90 then Some (n - 55)
               else None)
      in case d of Some v \<Rightarrow> if v < r then Some v else None | None \<Rightarrow> None)"

text \<open>The longest prefix of radix-\<open>r\<close> digits, as digit values.\<close>

definition take_digits :: "nat \<Rightarrow> string \<Rightarrow> nat list" where
  "take_digits r s = map (the \<circ> digit_val r) (takeWhile (\<lambda>c. digit_val r c \<noteq> None) s)"

definition digits_value :: "nat \<Rightarrow> nat list \<Rightarrow> nat" where
  "digits_value r ds = foldl (\<lambda>acc d. acc * r + d) 0 ds"

subsection \<open>\<^verbatim>\<open>parseInt\<close>\<close>

text \<open>
  ECMA-262 \<^verbatim>\<open>parseInt(string, undefined)\<close>: drop leading white space; read one
  sign; with no radix given, a \<^verbatim>\<open>0x\<close> or \<^verbatim>\<open>0X\<close> prefix selects radix 16, else
  radix 10; read the longest digit prefix; no digit at all is \<^verbatim>\<open>NaN\<close>. Trailing
  characters are ignored. \<open>parse_int_math\<close> is the signed mathematical value of the
  digits (\<open>sign \<times> mathInt\<close> of the standard); \<^verbatim>\<open>parseInt\<close> returns it as a
  Number, rounded to binary64 (\<open>parse_int\<close>, below, after the rounding is
  defined). (\<^verbatim>\<open>-0\<close> is the integer 0 here.)
\<close>

definition parse_int_math :: "string \<Rightarrow> int option" where
  "parse_int_math str =
     (let s = dropWhile js_ws str;
          sign = (if take 1 s = ''-'' then -1 else 1 :: int);
          s = (if take 1 s = ''-'' \<or> take 1 s = ''+'' then drop 1 s else s);
          hex = (take 2 s = ''0x'' \<or> take 2 s = ''0X'');
          r = (if hex then 16 else 10);
          s = (if hex then drop 2 s else s);
          ds = take_digits r s
      in if ds = [] then None else Some (sign * int (digits_value r ds)))"

subsection \<open>\<^verbatim>\<open>Number(string)\<close> on integral strings\<close>

definition js_trim :: "string \<Rightarrow> string" where
  "js_trim s = rev (dropWhile js_ws (rev (dropWhile js_ws s)))"

text \<open>All of \<open>s\<close> read as radix-\<open>r\<close> digits; \<open>None\<close> unless \<open>s\<close> is a non-empty digit string.\<close>

definition all_digits :: "nat \<Rightarrow> string \<Rightarrow> nat option" where
  "all_digits r s =
     (if s \<noteq> [] \<and> (\<forall>c \<in> set s. digit_val r c \<noteq> None)
      then Some (digits_value r (take_digits r s)) else None)"

text \<open>
  StringToNumber: surrounding white space is ignored, the empty string is 0,
  \<^verbatim>\<open>0x\<close>/\<^verbatim>\<open>0o\<close>/\<^verbatim>\<open>0b\<close> prefixes (unsigned) select radix 16, 8 and 2, and a
  decimal integer may carry one sign. Any other text is \<^verbatim>\<open>NaN\<close> or a non-integral
  value; both are \<open>None\<close>. \<open>str_int_math\<close> is the exact value of the literal;
  \<^verbatim>\<open>Number\<close> rounds it to binary64 (\<open>js_string_to_int\<close>, below).
\<close>

definition str_int_math :: "string \<Rightarrow> int option" where
  "str_int_math str =
     (let t = js_trim str
      in if t = [] then Some 0
         else if take 2 t \<in> {''0x'', ''0X''} then map_option int (all_digits 16 (drop 2 t))
         else if take 2 t \<in> {''0o'', ''0O''} then map_option int (all_digits 8 (drop 2 t))
         else if take 2 t \<in> {''0b'', ''0B''} then map_option int (all_digits 2 (drop 2 t))
         else if take 1 t = ''-'' then map_option (\<lambda>n. - int n) (all_digits 10 (drop 1 t))
         else if take 1 t = ''+'' then map_option int (all_digits 10 (drop 1 t))
         else map_option int (all_digits 10 t))"

text \<open>
  Which trimmed strings StringToNumber reads as a number at all (the
  StringNumericLiteral grammar of ECMA-262): an unsigned \<^verbatim>\<open>0x\<close>/\<^verbatim>\<open>0o\<close>/\<^verbatim>\<open>0b\<close>
  literal, or a decimal with one optional sign, made of \<^verbatim>\<open>Infinity\<close> or of digits
  with an optional fraction and an optional exponent. Every other non-empty string is
  \<^verbatim>\<open>NaN\<close>. This separates \<^verbatim>\<open>NaN\<close> from the numbers \<open>js_string_to_int\<close> leaves out.
\<close>

definition dec_digits :: "string \<Rightarrow> bool" where
  "dec_digits s \<longleftrightarrow> s \<noteq> [] \<and> list_all (\<lambda>c. digit_val 10 c \<noteq> None) s"

definition unsigned_part :: "string \<Rightarrow> string" where
  "unsigned_part s = (if take 1 s \<in> {''+'', ''-''} then drop 1 s else s)"

definition str_mantissa :: "string \<Rightarrow> bool" where
  "str_mantissa m =
     (let a = takeWhile (\<lambda>c. c \<noteq> CHR ''.'') m; b = dropWhile (\<lambda>c. c \<noteq> CHR ''.'') m
      in if b = [] then dec_digits a
         else (a = [] \<or> dec_digits a) \<and> (tl b = [] \<or> dec_digits (tl b)) \<and> a @ tl b \<noteq> [])"

definition str_unsigned_decimal :: "string \<Rightarrow> bool" where
  "str_unsigned_decimal u =
     (u = ''Infinity'' \<or>
      (let m = takeWhile (\<lambda>c. c \<notin> {CHR ''e'', CHR ''E''}) u; x = dropWhile (\<lambda>c. c \<notin> {CHR ''e'', CHR ''E''}) u
       in str_mantissa m \<and> (x = [] \<or> dec_digits (unsigned_part (tl x)))))"

definition str_numeric :: "string \<Rightarrow> bool" where
  "str_numeric t =
     ((take 2 t \<in> {''0x'', ''0X''} \<and> all_digits 16 (drop 2 t) \<noteq> None) \<or>
      (take 2 t \<in> {''0o'', ''0O''} \<and> all_digits 8 (drop 2 t) \<noteq> None) \<or>
      (take 2 t \<in> {''0b'', ''0B''} \<and> all_digits 2 (drop 2 t) \<noteq> None) \<or>
      str_unsigned_decimal (unsigned_part t))"

subsection \<open>Decimal printing\<close>

text \<open>
  \<^verbatim>\<open>String(n)\<close> for an integer \<open>n\<close>: the decimal digits, with a minus sign when
  negative. A client builds the path \<^verbatim>\<open>/fetchDealer/${id}\<close> this way.
\<close>

definition dec_char :: "nat \<Rightarrow> char" where
  "dec_char d = char_of (48 + d)"

fun nat_to_dec :: "nat \<Rightarrow> string" where
  "nat_to_dec n = (if n < 10 then [dec_char n] else nat_to_dec (n div 10) @ [dec_char (n mod 10)])"

definition int_to_dec :: "int \<Rightarrow> string" where
  "int_to_dec i = (if i < 0 then CHR ''-'' # nat_to_dec (nat (- i)) else nat_to_dec (nat i))"

subsection \<open>Addition of numbers\<close>

text \<open>
  A JavaScript number is an IEEE binary64 value with 53 significant bits. An integer
  of magnitude \<open>m < 2^53\<close> is held exactly; above, \<open>dbl_shift m\<close> counts the bits
  past the 53rd and only multiples of \<open>2^dbl_shift m\<close> are held. The sum of two
  numbers is the exact sum rounded to the nearest held value, a tie going to the even
  significand (\<open>round_double\<close>). Integers are the only numbers of the model; a sum
  beyond the largest finite double (about \<open>2^1024\<close>) would be \<^verbatim>\<open>Infinity\<close> and is
  not modelled.
\<close>

function dbl_shift :: "nat \<Rightarrow> nat" where
  "dbl_shift m = (if m < 2 ^ 53 then 0 else Suc (dbl_shift (m div 2)))"
  by auto
termination by (relation "measure id") auto

definition round_double :: "nat \<Rightarrow> nat" where
  "round_double m =
     (let q = 2 ^ dbl_shift m; d = m div q; r = m mod q
      in if 2 * r < q \<or> (2 * r = q \<and> even d) then d * q else (d + 1) * q)"

definition to_double :: "int \<Rightarrow> int" where
  "to_double n = sgn n * int (round_double (nat \<bar>n\<bar>))"

definition js_add :: "int \<Rightarrow> int \<Rightarrow> int" where
  "js_add a b = to_double (a + b)"

text \<open>
  \<^verbatim>\<open>parseInt(s)\<close> and \<^verbatim>\<open>Number(s)\<close> return Numbers: the exact value of the
  digits rounded to the nearest binary64 value (as V8 rounds; the standard lets a
  decimal of more than 20 significant digits be approximated instead).
\<close>

definition parse_int :: "string \<Rightarrow> int option" where
  "parse_int str = map_option to_double (parse_int_math str)"

definition js_string_to_int :: "string \<Rightarrow> int option" where
  "js_string_to_int str = map_option to_double (str_int_math str)"

declare js_ws_def [js_simps] digit_val_def [js_simps] take_digits_def [js_simps]
  digits_value_def [js_simps] parse_int_math_def [js_simps] parse_int_def [js_simps]
  js_trim_def [js_simps] all_digits_def [js_simps] str_int_math_def [js_simps]
  js_string_to_int_def [js_simps] dec_char_def [js_simps]
  int_to_dec_def [js_simps]

subsection \<open>Lemmas: digits, decimal round trip\<close>

lemma of_char_dec_char: "d < 10 \<Longrightarrow> of_char (dec_char d) = (48 + d :: nat)"
  by (simp add: dec_char_def)

lemma digit_val_dec_char: "d < 10 \<Longrightarrow> digit_val 10 (dec_char d) = Some d"
  by (simp add: digit_val_def of_char_dec_char Let_def)

lemma js_ws_dec_char: "d < 10 \<Longrightarrow> \<not> js_ws (dec_char d)"
  by (simp add: js_ws_def of_char_dec_char)

lemma nat_to_dec_chars: "c \<in> set (nat_to_dec n) \<Longrightarrow> \<exists>d < 10. c = dec_char d"
proof (induction n rule: nat_to_dec.induct)
  case (1 n)
  show ?case
  proof (cases "n < 10")
    case True
    with "1.prems" show ?thesis by (auto simp del: nat_to_dec.simps simp add: nat_to_dec.simps [of n])
  next
    case False
    with "1.prems" have "c \<in> set (nat_to_dec (n div 10)) \<or> c = dec_char (n mod 10)"
      by (auto simp del: nat_to_dec.simps simp add: nat_to_dec.simps [of n])
    then show ?thesis
    proof
      assume "c \<in> set (nat_to_dec (n div 10))"
      with False "1.IH" show ?thesis by blast
    next
      assume "c = dec_char (n mod 10)"
      then show ?thesis by (intro exI [of _ "n mod 10"]) simp
    qed
  qed
qed

lemma nat_to_dec_ne [simp]: "nat_to_dec n \<noteq> []"
  by (subst nat_to_dec.simps) simp

declare nat_to_dec.simps [simp del]

lemma nat_to_dec_digits: "c \<in> set (nat_to_dec n) \<Longrightarrow> digit_val 10 c \<noteq> None \<and> \<not> js_ws c"
  using nat_to_dec_chars digit_val_dec_char js_ws_dec_char by fastforce

lemma digits_value_snoc: "digits_value r (ds @ [d]) = digits_value r ds * r + d"
  by (simp add: digits_value_def)

lemma value_nat_to_dec: "digits_value 10 (map (the \<circ> digit_val 10) (nat_to_dec n)) = n"
proof (induction n rule: nat_to_dec.induct)
  case (1 n)
  show ?case
  proof (cases "n < 10")
    case True
    then show ?thesis by (simp add: nat_to_dec.simps [of n] digit_val_dec_char digits_value_def)
  next
    case False
    then have "digits_value 10 (map (the \<circ> digit_val 10) (nat_to_dec n))
        = digits_value 10 (map (the \<circ> digit_val 10) (nat_to_dec (n div 10))) * 10 + n mod 10"
      by (simp add: nat_to_dec.simps [of n] digits_value_snoc digit_val_dec_char)
    also have "\<dots> = n" using False "1.IH" by (simp add: comp_def)
    finally show ?thesis .
  qed
qed

lemma take_digits_dec_append:
  "take_digits 10 rest = [] \<Longrightarrow> take_digits 10 (nat_to_dec n @ rest) = map (the \<circ> digit_val 10) (nat_to_dec n)"
  using nat_to_dec_digits by (simp add: take_digits_def takeWhile_append2)

lemma take_digits_dec: "take_digits 10 (nat_to_dec n) = map (the \<circ> digit_val 10) (nat_to_dec n)"
  using take_digits_dec_append [of "[]" n] by (simp add: take_digits_def)

lemma dec_digit_not_x: "digit_val 10 c \<noteq> None \<Longrightarrow> c \<noteq> CHR ''x'' \<and> c \<noteq> CHR ''X''"
  by (auto simp: digit_val_def)

lemma one_small: "nat_to_dec n = [c] \<Longrightarrow> n < 10 \<and> c = dec_char n"
proof (cases "n < 10")
  case True
  assume "nat_to_dec n = [c]"
  with True show ?thesis by (simp add: nat_to_dec.simps [of n])
next
  case False
  assume "nat_to_dec n = [c]"
  with False have "nat_to_dec (n div 10) = []" by (simp add: nat_to_dec.simps [of n])
  then show ?thesis by simp
qed

lemma take2_one: "take 2 ([c] @ rest) = c # take 1 rest"
  by (simp add: numeral_2_eq_2)
lemma dec_char_zero: "d < 10 \<Longrightarrow> dec_char d = CHR ''0'' \<longleftrightarrow> d = 0"
proof
  assume d: "d < 10" and eq: "dec_char d = CHR ''0''"
  have "(48 + d :: nat) = of_char (dec_char d)" using d by (simp add: of_char_dec_char)
  also have "\<dots> = 48" using eq by simp
  finally show "d = 0" by simp
next
  assume "d = 0"
  have "char_of (of_char (CHR ''0'')) = CHR ''0''" by (rule char_of_char)
  then show "dec_char d = CHR ''0''" using \<open>d = 0\<close> by (simp add: dec_char_def)
qed

lemma take2_not_hex1: "t = c # take 1 rest \<Longrightarrow> take 1 rest \<noteq> ''x'' \<Longrightarrow> take 1 rest \<noteq> ''X'' \<Longrightarrow> t \<notin> {''0x'', ''0X''}"
  by simp
lemma take2_not_hex2: "t = c # take 1 rest \<Longrightarrow> c \<noteq> CHR ''0'' \<Longrightarrow> t \<notin> {''0x'', ''0X''}"
  by simp
lemma take2_not_hex3: "xs = c # c' # cs \<Longrightarrow> c' \<noteq> CHR ''x'' \<Longrightarrow> c' \<noteq> CHR ''X'' \<Longrightarrow> take 2 (xs @ rest) \<notin> {''0x'', ''0X''}"
  by simp

lemma nohex:
  assumes "n \<noteq> 0 \<or> take 1 rest \<notin> {''x'', ''X''}"
  shows "take 2 (nat_to_dec n @ rest) \<notin> {''0x'', ''0X''}"
proof -
  obtain c cs where cs: "nat_to_dec n = c # cs" using nat_to_dec_ne by (meson neq_Nil_conv)
  show ?thesis
  proof (cases cs)
    case Nil
    with cs have one: "nat_to_dec n = [c]" by simp
    then have small: "n < 10 \<and> c = dec_char n" by (rule one_small)
    have t2: "take 2 (nat_to_dec n @ rest) = c # take 1 rest" using one take2_one by simp
    show ?thesis
    proof (cases "n = 0")
      case True
      with assms have "take 1 rest \<noteq> ''x''" "take 1 rest \<noteq> ''X''" by blast+
      with t2 show ?thesis by (rule take2_not_hex1)
    next
      case False
      have "c \<noteq> CHR ''0''" using small False dec_char_zero [of n] by simp
      with t2 show ?thesis by (rule take2_not_hex2)
    qed
  next
    case (Cons c' cs')
    with cs have "c' \<in> set (nat_to_dec n)" by simp
    then have "digit_val 10 c' \<noteq> None" by (simp add: nat_to_dec_digits)
    then have x: "c' \<noteq> CHR ''x''" "c' \<noteq> CHR ''X''" using dec_digit_not_x by simp_all
    have "nat_to_dec n = c # c' # cs'" using Cons cs by simp
    from this x show ?thesis by (rule take2_not_hex3)
  qed
qed
lemma parse_int_math_nat_dec_append:
  assumes "take_digits 10 rest = []" and "n \<noteq> 0 \<or> take 1 rest \<notin> {''x'', ''X''}"
  shows "parse_int_math (nat_to_dec n @ rest) = Some (int n)"
proof -
  obtain c cs where cs: "nat_to_dec n = c # cs" using nat_to_dec_ne by (meson neq_Nil_conv)
  then have "c \<in> set (nat_to_dec n)" by simp
  then have c: "digit_val 10 c \<noteq> None" "\<not> js_ws c" by (simp_all add: nat_to_dec_digits)
  then have nsign: "c \<noteq> CHR ''-''" "c \<noteq> CHR ''+''" by (auto simp: digit_val_def)
  let ?s = "nat_to_dec n @ rest"
  have drop: "dropWhile js_ws ?s = ?s" using cs c by simp
  have t1: "take 1 ?s = [c]" using cs by simp
  have hex: "take 2 ?s \<notin> {''0x'', ''0X''}" using assms(2) by (rule nohex)
  have ds: "take_digits 10 ?s = map (the \<circ> digit_val 10) (nat_to_dec n)"
    using assms(1) by (rule take_digits_dec_append)
  have ne: "map (the \<circ> digit_val 10) (nat_to_dec n) \<noteq> []" by simp
  show ?thesis
    unfolding parse_int_math_def Let_def drop t1 using nsign hex ds ne value_nat_to_dec [of n]
    by simp
qed

lemma parse_int_nat_dec_append:
  assumes "take_digits 10 rest = []" and "n \<noteq> 0 \<or> take 1 rest \<notin> {''x'', ''X''}"
  shows "parse_int (nat_to_dec n @ rest) = Some (to_double (int n))"
  using parse_int_math_nat_dec_append [OF assms] by (simp add: parse_int_def)

lemma dbl_shift_small [simp]: "m < 2 ^ 53 \<Longrightarrow> dbl_shift m = 0"
  by (simp add: dbl_shift.simps)

lemma dbl_shift_one: "2 ^ 53 \<le> m \<Longrightarrow> m < 2 ^ 54 \<Longrightarrow> dbl_shift m = 1"
  by (simp add: dbl_shift.simps [of m])

declare dbl_shift.simps [simp del]

lemma round_double_small: "m < 2 ^ 53 \<Longrightarrow> round_double m = m"
  by (simp add: round_double_def)

lemma to_double_small: "\<bar>n\<bar> < 2 ^ 53 \<Longrightarrow> to_double n = n"
proof -
  assume "\<bar>n\<bar> < 2 ^ 53"
  then have "nat \<bar>n\<bar> < 2 ^ 53" by (simp add: nat_less_iff)
  then show ?thesis by (simp add: to_double_def round_double_small abs_sgn [symmetric] mult_sgn_abs)
qed

text \<open>Between \<open>2^53\<close> and \<open>2^54\<close> the held values are the even integers; \<open>m + 1\<close>
  for \<open>m\<close> a multiple of 4 is a tie and goes down to \<open>m\<close>, whose half is even.\<close>

lemma round_double_tie:
  assumes "4 dvd m" and "2 ^ 53 \<le> m" and "m < 2 ^ 54"
  shows "round_double (m + 1) = m"
proof -
  have m4: "m + 1 < 2 ^ 54" using assms(1,3) by (auto elim!: dvdE)
  have sh: "dbl_shift (Suc m) = 1" using assms(2) m4 by (intro dbl_shift_one) simp_all
  have "even (m div 2)" using assms(1) by presburger
  moreover have "(m + 1) div 2 = m div 2" and "(m + 1) mod 2 = 1" and "m div 2 * 2 = m"
    using assms(1) by presburger+
  ultimately show ?thesis by (simp add: round_double_def sh Let_def)
qed

lemma to_double_nonneg: "0 \<le> n \<Longrightarrow> to_double n = int (round_double (nat n))"
  by (cases "n = 0") (simp_all add: to_double_def round_double_def)

lemma round_double_pow53: "round_double (2 ^ 53) = 2 ^ 53"
  by (simp add: round_double_def dbl_shift_one)

lemma round_double_odd:
  assumes "2 ^ 53 < m" and "m < 2 ^ 54" and "odd m"
  shows "round_double m \<noteq> m"
proof -
  have "dbl_shift m = 1" using assms(1,2) by (intro dbl_shift_one) simp_all
  then have "even (round_double m)" by (simp add: round_double_def Let_def)
  with assms(3) show ?thesis by auto
qed

text \<open>From \<open>2^53\<close> on, rounding never goes below \<open>2^53\<close>: the held values there
  are at least \<open>2^52\<close> multiples of a power of two of at least 2.\<close>

lemma dbl_div_ge: "2 ^ 52 \<le> m \<Longrightarrow> 2 ^ 52 \<le> m div 2 ^ dbl_shift m"
proof (induction m rule: dbl_shift.induct)
  case (1 m)
  show ?case
  proof (cases "m < 2 ^ 53")
    case True
    with "1.prems" show ?thesis by simp
  next
    case False
    then have "2 ^ 52 \<le> m div 2" by simp
    with "1.IH" False have "2 ^ 52 \<le> m div 2 div 2 ^ dbl_shift (m div 2)" by simp
    moreover have "dbl_shift m = Suc (dbl_shift (m div 2))" using False by (simp add: dbl_shift.simps [of m])
    ultimately show ?thesis by (simp add: div_mult2_eq)
  qed
qed

lemma round_double_ge: "2 ^ 53 \<le> m \<Longrightarrow> 2 ^ 53 \<le> round_double m"
proof -
  assume m: "2 ^ 53 \<le> m"
  let ?q = "2 ^ dbl_shift m :: nat" and ?d = "m div 2 ^ dbl_shift m"
  have "dbl_shift m = Suc (dbl_shift (m div 2))" using m by (simp add: dbl_shift.simps [of m])
  then have q: "2 \<le> ?q" by simp
  have d: "2 ^ 52 \<le> ?d" using m by (intro dbl_div_ge) simp
  have "(2::nat) ^ 53 = 2 ^ 52 * 2" by simp
  also have "\<dots> \<le> ?d * ?q" using d q by (rule mult_le_mono)
  also have "\<dots> \<le> round_double m" by (simp add: round_double_def Let_def)
  finally show ?thesis .
qed

lemma to_double_nat: "to_double (int n) = (if n < 2 ^ 53 then int n else int (round_double n))"
  by (simp add: to_double_nonneg round_double_small)

lemma to_double_nat_le:
  assumes "b < 2 ^ 53"
  shows "to_double (int n) \<le> int b \<longleftrightarrow> n \<le> b"
proof (cases "n < 2 ^ 53")
  case True
  then show ?thesis by (simp add: to_double_nat)
next
  case False
  then have "2 ^ 53 \<le> round_double n" by (intro round_double_ge) simp
  then show ?thesis using False assms by (simp add: to_double_nat)
qed

lemma js_add_small [simp]: "\<bar>a + b\<bar> < 2 ^ 53 \<Longrightarrow> js_add a b = a + b"
  by (simp add: js_add_def to_double_small)

lemma js_add_pow53: "js_add (2 ^ 53) 1 = 2 ^ 53"
proof -
  have "round_double (2 ^ 53 + 1) = 2 ^ 53" by (rule round_double_tie) simp_all
  then show ?thesis by (simp add: js_add_def to_double_nonneg)
qed

lemma parse_int_math_int_to_dec: "parse_int_math (int_to_dec i) = Some i"
proof (cases "i < 0")
  case False
  then have "parse_int_math (int_to_dec i) = parse_int_math (nat_to_dec (nat i) @ [])"
    by (simp add: int_to_dec_def)
  also have "\<dots> = Some (int (nat i))"
    by (rule parse_int_math_nat_dec_append) (simp_all add: take_digits_def)
  finally show ?thesis using False by simp
next
  case True
  let ?m = "nat (- i)"
  let ?s = "CHR ''-'' # nat_to_dec ?m"
  have eq: "int_to_dec i = ?s" using True by (simp add: int_to_dec_def)
  have drop: "dropWhile js_ws ?s = ?s" by (simp add: js_ws_def)
  have t1: "take 1 ?s = ''-''" by simp
  have hex: "take 2 (nat_to_dec ?m @ []) \<notin> {''0x'', ''0X''}"
    using True by (intro nohex) simp
  have ds: "take_digits 10 (nat_to_dec ?m) = map (the \<circ> digit_val 10) (nat_to_dec ?m)"
    by (rule take_digits_dec)
  have "parse_int_math ?s = Some (- int ?m)"
    unfolding parse_int_math_def Let_def drop t1 using hex ds value_nat_to_dec [of ?m]
    by simp
  with eq True show ?thesis by simp
qed

lemma parse_int_int_to_dec: "parse_int (int_to_dec i) = Some (to_double i)"
  by (simp add: parse_int_def parse_int_math_int_to_dec)

lemma dropWhile_none: "list_all (\<lambda>c. \<not> P c) xs \<Longrightarrow> dropWhile P xs = xs"
  by (induction xs) auto

lemma nat_to_dec_trim [simp]: "js_trim (nat_to_dec n) = nat_to_dec n"
proof -
  have "list_all (\<lambda>c. \<not> js_ws c) (nat_to_dec n)"
    using nat_to_dec_digits by (simp add: list_all_iff)
  then show ?thesis by (simp add: js_trim_def dropWhile_none list_all_rev)
qed

lemma nat_to_dec_no_prefix:
  "take 2 (nat_to_dec n) \<notin> {''0x'', ''0X'', ''0o'', ''0O'', ''0b'', ''0B''} \<and> take 1 (nat_to_dec n) \<notin> {''-'', ''+''}"
proof -
  obtain c cs where cs: "nat_to_dec n = c # cs" using nat_to_dec_ne by (meson neq_Nil_conv)
  then have "digit_val 10 c \<noteq> None" using nat_to_dec_digits [of c n] by simp
  then have c: "c \<noteq> CHR ''-'' \<and> c \<noteq> CHR ''+''" by (auto simp: digit_val_def)
  have "take 2 (nat_to_dec n) \<notin> {''0x'', ''0X'', ''0o'', ''0O'', ''0b'', ''0B''}"
  proof (cases cs)
    case (Cons c' cs')
    then have "digit_val 10 c' \<noteq> None" using cs nat_to_dec_digits [of c' n] by simp
    then have "c' \<notin> {CHR ''x'', CHR ''X'', CHR ''o'', CHR ''O'', CHR ''b'', CHR ''B''}"
      by (auto simp: digit_val_def)
    then show ?thesis using cs Cons by auto
  qed (use cs in simp)
  then show ?thesis using cs c by simp
qed

lemma str_int_math_nat_to_dec: "str_int_math (nat_to_dec n) = Some (int n)"
proof -
  have "all_digits 10 (nat_to_dec n) = Some n"
    using nat_to_dec_digits value_nat_to_dec [of n] by (auto simp: all_digits_def take_digits_dec)
  then show ?thesis using nat_to_dec_no_prefix [of n]
    by (simp add: str_int_math_def Let_def)
qed

lemma js_string_to_int_nat_to_dec: "js_string_to_int (nat_to_dec n) = Some (to_double (int n))"
  by (simp add: js_string_to_int_def str_int_math_nat_to_dec)

subsection \<open>Lemmas: strings without digits\<close>

text \<open>A non-blank string with no decimal digit, other than \<^verbatim>\<open>Infinity\<close>, is \<^verbatim>\<open>NaN\<close>.\<close>

lemma set_js_trim: "set (js_trim s) \<subseteq> set s"
proof
  fix x assume "x \<in> set (js_trim s)"
  then have "x \<in> set (dropWhile js_ws (rev (dropWhile js_ws s)))" by (simp add: js_trim_def)
  then have "x \<in> set (dropWhile js_ws s)" by (auto dest: set_dropWhileD)
  then show "x \<in> set s" by (rule set_dropWhileD)
qed

lemma digitless_dec_digits:
  "list_all (\<lambda>c. digit_val 10 c = None) t \<Longrightarrow> set u \<subseteq> set t \<Longrightarrow> \<not> dec_digits u"
  by (cases u) (auto simp: dec_digits_def list_all_iff)

lemma digitless_all_digits:
  "list_all (\<lambda>c. digit_val 10 c = None) t \<Longrightarrow> set u \<subseteq> set t \<Longrightarrow> all_digits 10 u = None"
  by (cases u) (auto simp: all_digits_def list_all_iff)

lemma digitless_no_prefix:
  assumes "list_all (\<lambda>c. digit_val 10 c = None) t"
  shows "take 2 t \<notin> {''0x'', ''0X'', ''0o'', ''0O'', ''0b'', ''0B''}"
proof
  assume "take 2 t \<in> {''0x'', ''0X'', ''0o'', ''0O'', ''0b'', ''0B''}"
  then have "CHR ''0'' \<in> set t" by (cases t) (auto simp: numeral_2_eq_2)
  then have "digit_val 10 (CHR ''0'') = None" using assms by (simp add: list_all_iff)
  then show False by (simp add: digit_val_def)
qed

lemma set_unsigned_part: "set (unsigned_part t) \<subseteq> set t"
  by (simp add: unsigned_part_def set_drop_subset)

lemma digitless_not_numeric:
  assumes d: "list_all (\<lambda>c. digit_val 10 c = None) t" and i: "unsigned_part t \<noteq> ''Infinity''"
  shows "\<not> str_numeric t"
proof -
  define m where "m = takeWhile (\<lambda>c. c \<notin> {CHR ''e'', CHR ''E''}) (unsigned_part t)"
  define a where "a = takeWhile (\<lambda>c. c \<noteq> CHR ''.'') m"
  define b where "b = dropWhile (\<lambda>c. c \<noteq> CHR ''.'') m"
  have m: "set m \<subseteq> set t" unfolding m_def using set_unsigned_part [of t] set_takeWhileD by fastforce
  have "set a \<subseteq> set m" unfolding a_def using set_takeWhileD by fastforce
  with m have a: "\<not> dec_digits a" by (intro digitless_dec_digits [OF d]) (rule subset_trans)
  have "set (tl b) \<subseteq> set b" by (rule set_tl_sub)
  also have "\<dots> \<subseteq> set m" unfolding b_def using set_dropWhileD by fastforce
  finally have b: "\<not> dec_digits (tl b)" using m by (intro digitless_dec_digits [OF d]) (rule subset_trans)
  have "\<not> str_mantissa m" using a b unfolding str_mantissa_def Let_def a_def [symmetric] b_def [symmetric] by simp
  then have "\<not> str_unsigned_decimal (unsigned_part t)"
    using i unfolding str_unsigned_decimal_def Let_def m_def [symmetric] by simp
  moreover have "take 2 t \<notin> {''0x'', ''0X'', ''0o'', ''0O'', ''0b'', ''0B''}" by (rule digitless_no_prefix [OF d])
  ultimately show ?thesis unfolding str_numeric_def by simp
qed

lemma digitless_to_int:
  assumes d: "list_all (\<lambda>c. digit_val 10 c = None) (js_trim s)" and ne: "js_trim s \<noteq> []"
  shows "js_string_to_int s = None"
proof -
  have "set (drop 1 (js_trim s)) \<subseteq> set (js_trim s)" by (rule set_drop_subset)
  then have "all_digits 10 (drop 1 (js_trim s)) = None" and "all_digits 10 (js_trim s) = None"
    by (simp_all add: digitless_all_digits [OF d])
  moreover have "take 2 (js_trim s) \<notin> {''0x'', ''0X'', ''0o'', ''0O'', ''0b'', ''0B''}"
    by (rule digitless_no_prefix [OF d])
  ultimately show ?thesis using ne unfolding js_string_to_int_def str_int_math_def Let_def by simp
qed

subsection \<open>Lemmas: adding one\<close>

text \<open>
  Adding 1 to a non-negative number that is held exactly gives the exact successor
  precisely below \<open>2^53\<close> (\<^verbatim>\<open>Number.MAX_SAFE_INTEGER + 1\<close>); from there on the
  successor is not a number and the sum is rounded. From \<open>2^53\<close> to \<open>2^54\<close> a
  multiple of 4 is a tie that rounds back down: a counter kept as \<^verbatim>\<open>x + 1\<close> stops.
\<close>

lemma js_add_one_exact_iff:
  assumes "0 \<le> n" and "n + 1 < 2 ^ 54" and "n < 2 ^ 53 \<or> even n"
  shows "js_add n 1 = n + 1 \<longleftrightarrow> n < 2 ^ 53"
proof (cases "n < 2 ^ 53")
  case True
  show ?thesis
  proof (cases "n + 1 < 2 ^ 53")
    case True
    moreover have "\<bar>n + 1\<bar> < 2 ^ 53" using True assms(1) by simp
    ultimately show ?thesis using \<open>n < 2 ^ 53\<close> by (simp add: js_add_def to_double_small)
  next
    case False
    with True have "n + 1 = 2 ^ 53" by simp
    then show ?thesis using True by (simp add: js_add_def to_double_nonneg round_double_pow53 [simplified])
  qed
next
  case False
  then have e: "even n" using assms(3) by simp
  have "2 ^ 53 < nat (n + 1)" and "nat (n + 1) < 2 ^ 54" and "odd (nat (n + 1))"
    using False assms(2) e by (simp_all add: nat_less_iff even_nat_iff)
  then have "round_double (nat (n + 1)) \<noteq> nat (n + 1)" by (rule round_double_odd)
  then have "js_add n 1 \<noteq> n + 1"
    using assms(1) by (simp add: js_add_def to_double_nonneg flip: of_nat_eq_iff)
  with False show ?thesis by simp
qed

lemma js_add_one_absorbed:
  assumes "4 dvd n" and "2 ^ 53 \<le> n" and "n < 2 ^ 54"
  shows "js_add n 1 = n"
proof -
  have "2 ^ 53 \<le> nat n" and "nat n < 2 ^ 54"
    using assms(2,3) by (simp_all add: nat_less_iff le_nat_iff)
  moreover have "4 dvd nat n"
  proof -
    from assms(1) obtain k where k: "n = 4 * k" by (elim dvdE)
    with assms(2) have "nat n = 4 * nat k" by simp
    then show ?thesis by simp
  qed
  ultimately have "round_double (nat n + 1) = nat n" by (intro round_double_tie)
  moreover have "nat (n + 1) = nat n + 1" using assms(2) by simp
  ultimately show ?thesis using assms(2) by (simp add: js_add_def to_double_nonneg)
qed

end
