(* ===== verification/Store.thy ===== *)
theory Store
  imports JsNumber
begin

text \<open>
  The document store as the program sees it through mongoose: the two models
  \<^verbatim>\<open>Reviews\<close> and \<^verbatim>\<open>Dealerships\<close> (\<^verbatim>\<open>require('./review')\<close>,
  \<^verbatim>\<open>require('./dealership')\<close>, \<^verbatim>\<open>src/app.js\<close> lines 48--49) over one shared
  connection. The schema files are not part of the sources; from the specification,
  a review has a numeric \<^verbatim>\<open>id\<close> and a numeric \<^verbatim>\<open>dealership\<close>, a dealership a
  numeric \<^verbatim>\<open>id\<close>, and every other field is loosely typed. So casting a document
  casts exactly those Number fields (mongoose \<^verbatim>\<open>castNumber\<close>) and keeps the other
  fields as they are. A collection is the list of its documents in insertion order
  (the order \<^verbatim>\<open>find()\<close> returns them in); the connection is up or down, and every
  operation issued while it is down fails. The operations are the mongoose calls of
  \<^verbatim>\<open>src/app.js\<close>: \<^verbatim>\<open>find\<close>, \<^verbatim>\<open>find(filter)\<close>, \<^verbatim>\<open>findOne\<close>,
  \<^verbatim>\<open>find().sort({id: -1})\<close>, \<^verbatim>\<open>deleteMany({})\<close>, \<^verbatim>\<open>insertMany\<close> and
  \<^verbatim>\<open>new Model(doc).save()\<close>.
\<close>

datatype coll = Reviews | Dealerships

datatype store_error = ConnectionError | CastError | ValidationError

subsection \<open>Schemas and casting\<close>

definition number_fields :: "coll \<Rightarrow> string list" where
  "number_fields c = (case c of Reviews \<Rightarrow> [''id'', ''dealership''] | Dealerships \<Rightarrow> [''id''])"

text \<open>
  mongoose \<^verbatim>\<open>castNumber\<close>: \<^verbatim>\<open>null\<close> stays, the empty string is \<^verbatim>\<open>null\<close>, a string
  or boolean goes through \<^verbatim>\<open>Number\<close>, \<^verbatim>\<open>NaN\<close> and arrays or objects are a cast
  error.
\<close>

fun cast_number :: "jval \<Rightarrow> jval option" where
  "cast_number JNull = Some JNull"
| "cast_number (JNum n) = Some (JNum n)"
| "cast_number (JBool b) = Some (JNum (if b then 1 else 0))"
| "cast_number (JStr s) = (if s = [] then Some JNull else map_option JNum (js_string_to_int s))"
| "cast_number (JArr xs) = None"
| "cast_number (JObj ps) = None"

definition cast_field :: "coll \<Rightarrow> string \<times> jval \<Rightarrow> (string \<times> jval) option" where
  "cast_field c kv =
     (if fst kv \<in> set (number_fields c)
      then map_option (\<lambda>v. (fst kv, v)) (cast_number (snd kv)) else Some kv)"

text \<open>\<^verbatim>\<open>new Model(ob)\<close> followed by validation: the cast document, or a failure.\<close>

definition cast_doc :: "coll \<Rightarrow> obj \<Rightarrow> obj option" where
  "cast_doc c ob = those (map (cast_field c) ob)"

text \<open>A value handed to \<^verbatim>\<open>insertMany\<close> becomes a document only if it is an object.\<close>

definition cast_value :: "coll \<Rightarrow> jval \<Rightarrow> obj option" where
  "cast_value c v = (case v of JObj ob \<Rightarrow> cast_doc c ob | _ \<Rightarrow> None)"

text \<open>
  The type invariant of a stored document: each key once, and each Number field of the
  schema absent, \<^verbatim>\<open>null\<close> or a number.
\<close>

definition number_ok :: "jval option \<Rightarrow> bool" where
  "number_ok v = (case v of None \<Rightarrow> True | Some JNull \<Rightarrow> True | Some (JNum _) \<Rightarrow> True | _ \<Rightarrow> False)"

definition doc_ok :: "coll \<Rightarrow> obj \<Rightarrow> bool" where
  "doc_ok c d \<longleftrightarrow> wf_obj d \<and> (\<forall>k \<in> set (number_fields c). number_ok (obj_get d k))"

subsection \<open>The store\<close>

record store =
  reviews :: "obj list"
  dealerships :: "obj list"
  connected :: bool

definition coll_docs :: "coll \<Rightarrow> store \<Rightarrow> obj list" where
  "coll_docs c st = (case c of Reviews \<Rightarrow> reviews st | Dealerships \<Rightarrow> dealerships st)"

definition set_coll :: "coll \<Rightarrow> obj list \<Rightarrow> store \<Rightarrow> store" where
  "set_coll c ds st = (case c of Reviews \<Rightarrow> st\<lparr>reviews := ds\<rparr> | Dealerships \<Rightarrow> st\<lparr>dealerships := ds\<rparr>)"

definition store_ok :: "store \<Rightarrow> bool" where
  "store_ok st \<longleftrightarrow> (\<forall>d \<in> set (reviews st). doc_ok Reviews d) \<and>
                   (\<forall>d \<in> set (dealerships st). doc_ok Dealerships d)"

subsection \<open>Queries\<close>

text \<open>
  A query value: a JavaScript value, or the number \<^verbatim>\<open>NaN\<close> that \<^verbatim>\<open>parseInt\<close>
  returns for a parameter without digits. Casting a query against a Number field
  casts the value, and \<^verbatim>\<open>NaN\<close> is a cast error there; other fields are not cast.
\<close>

datatype qval = QVal jval | QNaN

definition cast_query :: "coll \<Rightarrow> string \<Rightarrow> qval \<Rightarrow> store_error + qval" where
  "cast_query c k q =
     (if k \<in> set (number_fields c)
      then (case q of
              QNaN \<Rightarrow> Inl CastError
            | QVal v \<Rightarrow> (case cast_number v of None \<Rightarrow> Inl CastError | Some v' \<Rightarrow> Inr (QVal v')))
      else Inr q)"

text \<open>
  Equality filter \<^verbatim>\<open>{k: q}\<close> on one document: the field equals the value, or the
  field is an array holding the value; \<^verbatim>\<open>null\<close> also matches a missing field.
  \<^verbatim>\<open>NaN\<close> equals no value a document holds here.
\<close>

definition mongo_match :: "jval option \<Rightarrow> qval \<Rightarrow> bool" where
  "mongo_match fv q =
     (case q of
        QNaN \<Rightarrow> False
      | QVal v \<Rightarrow> (case fv of
                    None \<Rightarrow> v = JNull
                  | Some x \<Rightarrow> x = v \<or> (case x of JArr xs \<Rightarrow> v \<in> set xs | _ \<Rightarrow> False)))"

definition find_all :: "coll \<Rightarrow> store \<Rightarrow> store_error + obj list" where
  "find_all c st = (if connected st then Inr (coll_docs c st) else Inl ConnectionError)"

definition find_eq :: "coll \<Rightarrow> string \<Rightarrow> qval \<Rightarrow> store \<Rightarrow> store_error + obj list" where
  "find_eq c k q st =
     (case cast_query c k q of
        Inl e \<Rightarrow> Inl e
      | Inr q' \<Rightarrow> if connected st
                 then Inr (filter (\<lambda>d. mongo_match (obj_get d k) q') (coll_docs c st))
                 else Inl ConnectionError)"

text \<open>\<^verbatim>\<open>findOne(filter)\<close>: the first match in natural order, or \<^verbatim>\<open>null\<close>.\<close>

definition find_one_eq :: "coll \<Rightarrow> string \<Rightarrow> qval \<Rightarrow> store \<Rightarrow> store_error + obj option" where
  "find_one_eq c k q st =
     sum_bind (find_eq c k q st) (\<lambda>ds. Inr (case ds of [] \<Rightarrow> None | d # _ \<Rightarrow> Some d))"

text \<open>
  \<^verbatim>\<open>find().sort({id: -1})\<close>: documents by descending \<^verbatim>\<open>id\<close>, where a missing or
  null id sorts below every number (BSON order of the values a stored id can take).
\<close>

definition id_key :: "obj \<Rightarrow> int option" where
  "id_key d = (case obj_get d ''id'' of Some (JNum n) \<Rightarrow> Some n | _ \<Rightarrow> None)"

definition find_sorted_desc :: "coll \<Rightarrow> store \<Rightarrow> store_error + obj list" where
  "find_sorted_desc c st =
     (if connected st then Inr (rev (sort_key id_key (coll_docs c st))) else Inl ConnectionError)"

subsection \<open>Writes\<close>

definition delete_all :: "coll \<Rightarrow> store \<Rightarrow> store_error + store" where
  "delete_all c st = (if connected st then Inr (set_coll c [] st) else Inl ConnectionError)"

text \<open>
  \<^verbatim>\<open>insertMany(v)\<close>: an array is the list of documents, any other value one
  document. In the default ordered mode every document is cast and validated first,
  and one failure rejects the call before anything is written.
\<close>

definition cast_many :: "coll \<Rightarrow> jval \<Rightarrow> obj list option" where
  "cast_many c v = those (map (cast_value c) (case v of JArr xs \<Rightarrow> xs | _ \<Rightarrow> [v]))"

definition insert_many :: "coll \<Rightarrow> jval \<Rightarrow> store \<Rightarrow> store_error + store" where
  "insert_many c v st =
     (case cast_many c v of
        None \<Rightarrow> Inl ValidationError
      | Some ds \<Rightarrow> if connected st then Inr (set_coll c (coll_docs c st @ ds) st)
                  else Inl ConnectionError)"

text \<open>\<^verbatim>\<open>new Model(ob).save()\<close>: validation first, then the write; the saved document.\<close>

definition save :: "coll \<Rightarrow> obj \<Rightarrow> store \<Rightarrow> store_error + (obj \<times> store)" where
  "save c ob st =
     (case cast_doc c ob of
        None \<Rightarrow> Inl ValidationError
      | Some d \<Rightarrow> if connected st then Inr (d, set_coll c (coll_docs c st @ [d]) st)
                  else Inl ConnectionError)"

declare number_fields_def [store_simps] cast_field_def [store_simps] cast_doc_def [store_simps]
  cast_value_def [store_simps] number_ok_def [store_simps] doc_ok_def [store_simps]
  coll_docs_def [store_simps] set_coll_def [store_simps] store_ok_def [store_simps]
  cast_query_def [store_simps] mongo_match_def [store_simps] find_all_def [store_simps]
  find_eq_def [store_simps] find_one_eq_def [store_simps] id_key_def [store_simps]
  find_sorted_desc_def [store_simps] delete_all_def [store_simps] cast_many_def [store_simps]
  insert_many_def [store_simps]
  save_def [store_simps]

subsection \<open>Lemmas: casting and matching\<close>

lemma cast_field_fst: "cast_field c kv = Some kv' \<Longrightarrow> fst kv' = fst kv"
  by (auto simp: cast_field_def split: if_splits)

lemma cast_doc_Some:
  "cast_doc c ob = Some d \<longleftrightarrow>
     (\<forall>kv \<in> set ob. cast_field c kv \<noteq> None) \<and> d = map (the \<circ> cast_field c) ob"
  by (simp add: cast_doc_def those_map_Some)

lemma cast_doc_keys: "cast_doc c ob = Some d \<Longrightarrow> map fst d = map fst ob"
  by (auto simp: cast_doc_Some cast_field_fst intro!: map_cong)

lemma cast_doc_get:
  assumes "cast_doc c ob = Some d"
  shows "obj_get d k =
    (case obj_get ob k of
       None \<Rightarrow> None
     | Some v \<Rightarrow> if k \<in> set (number_fields c) then cast_number v else Some v)"
  using assms
proof (induction ob arbitrary: d)
  case Nil
  then show ?case by (simp add: cast_doc_def)
next
  case (Cons kv ob)
  obtain k' v' where kv: "kv = (k', v')" by (cases kv)
  from Cons.prems obtain kv'' d' where f: "cast_field c kv = Some kv''"
    and rest: "cast_doc c ob = Some d'" and d: "d = kv'' # d'"
    by (auto simp: cast_doc_def split: option.splits)
  have IH: "obj_get d' k = (case obj_get ob k of None \<Rightarrow> None
      | Some v \<Rightarrow> if k \<in> set (number_fields c) then cast_number v else Some v)"
    using rest by (rule Cons.IH)
  show ?case
    using f IH by (cases "k = k'") (auto simp: d kv cast_field_def split: if_splits)
qed

lemma cast_number_ok: "cast_number v = Some v' \<Longrightarrow> number_ok (Some v')"
  by (cases v) (auto simp: number_ok_def split: if_splits)

lemma cast_doc_ok: "wf_obj ob \<Longrightarrow> cast_doc c ob = Some d \<Longrightarrow> doc_ok c d"
  unfolding doc_ok_def wf_obj_def
  by (auto simp: cast_doc_keys cast_doc_get number_ok_def cast_number_ok wf_obj_def [symmetric]
      split: option.splits dest: cast_number_ok simp flip: wf_obj_def)

text \<open>On a Number field the store can hold, matching a number is equality.\<close>

lemma number_ok_match:
  "number_ok fv \<Longrightarrow> mongo_match fv (QVal (JNum n)) \<longleftrightarrow> fv = Some (JNum n)"
  by (auto simp: number_ok_def mongo_match_def split: option.splits jval.splits)

end
