(* ===== verification/Router.thy ===== *)
theory Router
  imports Store
begin

text \<open>
  The six data endpoints and the welcome route of \<^verbatim>\<open>src/app.js\<close> (lines 71--133).
  Each handler takes the store and its inputs and returns the response it sends and
  the store after it; inside each handler one \<^verbatim>\<open>try\<close> block turns any failure of
  an awaited store call into status 500 with the handler's own message. Responses carry
  a status and a body, either text (\<^verbatim>\<open>res.send\<close>) or JSON (\<^verbatim>\<open>res.json\<close>).
  The routing table (Express matches literal path segments case-insensitively and in
  registration order; a \<^verbatim>\<open>:param\<close> is one non-empty segment) dispatches a request
  to its handler; a request no route matches gets Express's 404.
\<close>

datatype resp_body = BText string | BJson jval

record response =
  status :: nat
  resp_body :: resp_body

definition json_ok :: "jval \<Rightarrow> response" where
  "json_ok v = \<lparr>status = 200, resp_body = BJson v\<rparr>"

definition json_status :: "nat \<Rightarrow> string \<Rightarrow> string \<Rightarrow> response" where
  "json_status n k msg = \<lparr>status = n, resp_body = BJson (JObj [(k, JStr msg)])\<rparr>"

definition docs_json :: "obj list \<Rightarrow> jval" where
  "docs_json ds = JArr (map JObj ds)"

text \<open>The numeric path parameter as a query value: \<^verbatim>\<open>parseInt\<close>, \<^verbatim>\<open>NaN\<close> kept.\<close>

definition int_param :: "string \<Rightarrow> qval" where
  "int_param s = (case parse_int s of None \<Rightarrow> QNaN | Some n \<Rightarrow> QVal (JNum n))"

subsection \<open>Handlers\<close>

text \<open>\<^verbatim>\<open>GET /\<close> (line 71).\<close>

definition welcome_msg :: response where
  "welcome_msg = \<lparr>status = 200, resp_body = BText ''Welcome to the Mongoose API''\<rparr>"

text \<open>\<^verbatim>\<open>GET /fetchReviews\<close> (lines 73--80).\<close>

definition fetch_reviews :: "store \<Rightarrow> response" where
  "fetch_reviews st =
     (case find_all Reviews st of
        Inr docs \<Rightarrow> json_ok (docs_json docs)
      | Inl _ \<Rightarrow> json_status 500 ''error'' ''Error fetching documents'')"

text \<open>\<^verbatim>\<open>GET /fetchReviews/dealer/:id\<close> (lines 82--90).\<close>

definition fetch_reviews_by_dealer :: "string \<Rightarrow> store \<Rightarrow> response" where
  "fetch_reviews_by_dealer id_param st =
     (let dealerId = int_param id_param
      in case find_eq Reviews ''dealership'' dealerId st of
           Inr docs \<Rightarrow> json_ok (docs_json docs)
         | Inl _ \<Rightarrow> json_status 500 ''error'' ''Error fetching documents'')"

text \<open>\<^verbatim>\<open>GET /fetchDealers\<close> (lines 92--99).\<close>

definition fetch_dealers :: "store \<Rightarrow> response" where
  "fetch_dealers st =
     (case find_all Dealerships st of
        Inr dealers \<Rightarrow> json_ok (docs_json dealers)
      | Inl _ \<Rightarrow> json_status 500 ''error'' ''Error fetching dealers'')"

text \<open>\<^verbatim>\<open>GET /fetchDealers/:state\<close> (lines 101--109).\<close>

definition fetch_dealers_by_state :: "string \<Rightarrow> store \<Rightarrow> response" where
  "fetch_dealers_by_state state st =
     (case find_eq Dealerships ''state'' (QVal (JStr state)) st of
        Inr dealersByState \<Rightarrow> json_ok (docs_json dealersByState)
      | Inl _ \<Rightarrow> json_status 500 ''error'' ''Error fetching dealers by state'')"

text \<open>\<^verbatim>\<open>GET /fetchDealer/:id\<close> (lines 111--120): 404 when \<^verbatim>\<open>findOne\<close> finds nothing.\<close>

definition fetch_dealer :: "string \<Rightarrow> store \<Rightarrow> response" where
  "fetch_dealer id_param st =
     (let dealerId = int_param id_param
      in case find_one_eq Dealerships ''id'' dealerId st of
           Inr None \<Rightarrow> json_status 404 ''message'' ''Dealer not found''
         | Inr (Some dealer) \<Rightarrow> json_ok (JObj dealer)
         | Inl _ \<Rightarrow> json_status 500 ''error'' ''Error fetching dealer by id'')"

text \<open>
  \<^verbatim>\<open>POST /insert_review\<close> (lines 122--133). The new id is read off the first
  document of the descending sort (\<^verbatim>\<open>documents[0]?.id ?? 0\<close>, plus one); a stored
  id is a number, \<^verbatim>\<open>null\<close> or missing (\<open>doc_ok\<close>), and the last two read as 0.
  The \<^verbatim>\<open>+ 1\<close> is an addition of JavaScript numbers (\<open>js_add\<close>), exact only
  below \<open>2^53\<close>. The review is \<^verbatim>\<open>{id: new_id, ...data}\<close>, so an \<^verbatim>\<open>id\<close> in
  the body replaces the computed one.
\<close>

definition first_id :: "obj list \<Rightarrow> int" where
  "first_id documents =
     (case documents of [] \<Rightarrow> 0 | d # _ \<Rightarrow> (case obj_get d ''id'' of Some (JNum n) \<Rightarrow> n | _ \<Rightarrow> 0))"

definition review_of :: "int \<Rightarrow> obj \<Rightarrow> obj" where
  "review_of new_id data = obj_spread [(''id'', JNum new_id)] data"

definition insert_review :: "obj \<Rightarrow> store \<Rightarrow> response \<times> store" where
  "insert_review data st =
     (case find_sorted_desc Reviews st of
        Inl _ \<Rightarrow> (json_status 500 ''error'' ''Error inserting review'', st)
      | Inr documents \<Rightarrow>
          (let new_id = js_add (first_id documents) 1
           in case save Reviews (review_of new_id data) st of
                Inl _ \<Rightarrow> (json_status 500 ''error'' ''Error inserting review'', st)
              | Inr (savedReview, st') \<Rightarrow> (json_ok (JObj savedReview), st')))"

text \<open>
  What the id assignment promises: one more than the greatest numeric id among the
  stored reviews, or 1 when there is none.
\<close>

definition next_id_spec :: "obj list \<Rightarrow> int" where
  "next_id_spec docs =
     (let ids = List.map_filter id_key docs in if ids = [] then 1 else Max (set ids) + 1)"

text \<open>The id the handler computes from the stored reviews (lines 125--126).\<close>

definition assigned_id :: "obj list \<Rightarrow> int" where
  "assigned_id docs = js_add (first_id (rev (sort_key id_key docs))) 1"

subsection \<open>Routing\<close>

text \<open>A request: method, path segments (URL-decoded, empty segments dropped), body.\<close>

datatype request = GET "string list" | POST "string list" obj

definition lower_char :: "char \<Rightarrow> char" where
  "lower_char c = (let n = of_char c :: nat in if 65 \<le> n \<and> n \<le> 90 then char_of (n + 32) else c)"

definition seg_eq :: "string \<Rightarrow> string \<Rightarrow> bool" where
  "seg_eq lit s \<longleftrightarrow> map lower_char s = map lower_char lit"

definition not_found :: response where
  "not_found = \<lparr>status = 404, resp_body = BText ''Cannot GET''\<rparr>"

text \<open>Dispatch in the order the routes are registered; the store changes only on insert.\<close>

fun handle :: "request \<Rightarrow> store \<Rightarrow> response \<times> store" where
  "handle (GET []) st = (welcome_msg, st)"
| "handle (GET [a]) st =
     (if seg_eq ''fetchReviews'' a then (fetch_reviews st, st)
      else if seg_eq ''fetchDealers'' a then (fetch_dealers st, st)
      else (not_found, st))"
| "handle (GET [a, b]) st =
     (if seg_eq ''fetchDealers'' a then (fetch_dealers_by_state b st, st)
      else if seg_eq ''fetchDealer'' a then (fetch_dealer b st, st)
      else (not_found, st))"
| "handle (GET [a, b, c]) st =
     (if seg_eq ''fetchReviews'' a \<and> seg_eq ''dealer'' b then (fetch_reviews_by_dealer c st, st)
      else (not_found, st))"
| "handle (GET (a # b # c # d # rest)) st = (not_found, st)"
| "handle (POST [a] data) st =
     (if seg_eq ''insert_review'' a then insert_review data st else (not_found, st))"
| "handle (POST [] data) st = (not_found, st)"
| "handle (POST (a # b # rest) data) st = (not_found, st)"

declare json_ok_def [handler_simps] json_status_def [handler_simps] docs_json_def [handler_simps]
  int_param_def [handler_simps] welcome_msg_def [handler_simps] fetch_reviews_def [handler_simps]
  fetch_reviews_by_dealer_def [handler_simps] fetch_dealers_def [handler_simps]
  fetch_dealers_by_state_def [handler_simps] fetch_dealer_def [handler_simps]
  first_id_def [handler_simps] review_of_def [handler_simps] next_id_spec_def [handler_simps] insert_review_def [handler_simps]
  lower_char_def [handler_simps] seg_eq_def [handler_simps] not_found_def [handler_simps]

subsection \<open>The shape of a response\<close>

text \<open>
  What a client may expect of each status: a text (the welcome or Express's own 404
  page) or JSON; JSON with status 200 is an array of documents or one document, with
  404 a \<^verbatim>\<open>{message}\<close> and with 500 an \<^verbatim>\<open>{error}\<close> object.
\<close>

fun is_jobj :: "jval \<Rightarrow> bool" where
  "is_jobj (JObj ps) = True"
| "is_jobj _ = False"

fun body_shape :: "nat \<Rightarrow> resp_body \<Rightarrow> bool" where
  "body_shape s (BText t) = (s = 200 \<or> s = 404)"
| "body_shape s (BJson (JArr vs)) = (s = 200 \<and> list_all is_jobj vs)"
| "body_shape s (BJson (JObj [(k, JStr m)])) =
     (s = 200 \<or> (s = 404 \<and> k = ''message'') \<or> (s = 500 \<and> k = ''error''))"
| "body_shape s (BJson (JObj ps)) = (s = 200)"
| "body_shape s (BJson v) = False"

subsection \<open>Lemmas: the id assignment\<close>

lemma first_id_Cons: "first_id (d # ds) = (case id_key d of Some n \<Rightarrow> n | None \<Rightarrow> 0)"
  by (auto simp: first_id_def id_key_def split: option.splits jval.splits)

lemma next_id_of_sorted: "first_id (rev (sort_key id_key docs)) + 1 = next_id_spec docs"
proof (cases "docs = []")
  case True
  then show ?thesis by (simp add: first_id_def next_id_spec_def)
next
  case False
  let ?s = "sort_key id_key docs"
  let ?N = "{n. \<exists>d \<in> set docs. id_key d = Some n}"
  have ne: "?s \<noteq> []" using False by (metis length_0_conv length_sort)
  then obtain d ds where rs: "rev ?s = d # ds" by (cases "rev ?s") auto
  have "d = last ?s" using rs by (metis hd_rev list.sel(1))
  then have "id_key d = Max (id_key ` set docs)" using False by (simp add: last_sort_key_Max)
  also have "\<dots> = (if \<exists>x \<in> set docs. id_key x \<noteq> None then Some (Max ?N) else None)"
    using False by (intro Max_option_image) simp_all
  finally have key: "id_key d = (if \<exists>x \<in> set docs. id_key x \<noteq> None then Some (Max ?N) else None)" .
  have ids: "set (List.map_filter id_key docs) = ?N" by (simp add: set_map_filter)
  have "List.map_filter id_key docs = [] \<longleftrightarrow> ?N = {}"
    by (simp flip: ids)
  then have empty: "List.map_filter id_key docs = [] \<longleftrightarrow> \<not> (\<exists>x \<in> set docs. id_key x \<noteq> None)"
    by (auto; metis not_Some_eq)
  show ?thesis
    using key ids empty by (simp add: rs first_id_Cons next_id_spec_def Let_def)
qed

text \<open>
  C2 (equivalence). What the handler reads from its query
  (\<^verbatim>\<open>Reviews.find().sort({ id: -1 })\<close>, then \<^verbatim>\<open>documents[0]?.id ?? 0\<close>) is the
  greatest numeric id stored, or 0 when no review has a numeric id.
\<close>

theorem first_id_sort_desc:
  assumes "find_sorted_desc Reviews st = Inr docs"
  shows "first_id docs =
           (if List.map_filter id_key (reviews st) = [] then 0 else Max (set (List.map_filter id_key (reviews st))))"
proof -
  have "docs = rev (sort_key id_key (reviews st))"
    using assms by (simp add: find_sorted_desc_def coll_docs_def split: if_splits)
  then have "first_id docs + 1 = next_id_spec (reviews st)" by (simp add: next_id_of_sorted)
  then show ?thesis by (simp add: next_id_spec_def Let_def split: if_splits)
qed

lemma assigned_id_spec: "assigned_id docs = js_add (next_id_spec docs - 1) 1"
proof -
  have "first_id (rev (sort_key id_key docs)) = next_id_spec docs - 1"
    using next_id_of_sorted [of docs] by simp
  then show ?thesis by (simp add: assigned_id_def)
qed

lemma assigned_id_exact: "\<bar>next_id_spec docs\<bar> < 2 ^ 53 \<Longrightarrow> assigned_id docs = next_id_spec docs"
  by (simp add: assigned_id_spec js_add_def to_double_small)

lemma next_id_spec_Max:
  assumes "next_id_spec docs = m + 1" and "m \<noteq> 0"
  shows "m \<in> set (List.map_filter id_key docs)"
proof (cases "List.map_filter id_key docs = []")
  case True
  with assms show ?thesis by (simp add: next_id_spec_def)
next
  case False
  then have "Max (set (List.map_filter id_key docs)) \<in> set (List.map_filter id_key docs)" by simp
  with False assms(1) show ?thesis by (simp add: next_id_spec_def)
qed

subsection \<open>Lemmas: the handlers on the store\<close>

lemma find_sorted_desc_Reviews:
  "connected st \<Longrightarrow> find_sorted_desc Reviews st = Inr (rev (sort_key id_key (reviews st)))"
  by (simp add: find_sorted_desc_def coll_docs_def)

lemma save_Reviews:
  "connected st \<Longrightarrow> cast_doc Reviews ob = Some d \<Longrightarrow>
   save Reviews ob st = Inr (d, st\<lparr>reviews := reviews st @ [d]\<rparr>)"
  by (simp add: save_def coll_docs_def set_coll_def)

lemma insert_review_connected:
  "connected st \<Longrightarrow> insert_review data st =
     (case save Reviews (review_of (assigned_id (reviews st)) data) st of
        Inl _ \<Rightarrow> (json_status 500 ''error'' ''Error inserting review'', st)
      | Inr (savedReview, st') \<Rightarrow> (json_ok (JObj savedReview), st'))"
  by (simp add: insert_review_def find_sorted_desc_Reviews assigned_id_def)

lemma insert_review_disconnected:
  "\<not> connected st \<Longrightarrow> insert_review data st = (json_status 500 ''error'' ''Error inserting review'', st)"
  by (simp add: insert_review_def find_sorted_desc_def)

lemma review_of_wf: "wf_obj (review_of n data)"
  unfolding review_of_def by (rule wf_obj_spread) (simp add: wf_obj_def)

lemma review_of_id_absent:
  "obj_get data ''id'' = None \<Longrightarrow> obj_get (review_of n data) ''id'' = Some (JNum n)"
  by (simp add: review_of_def obj_get_spread_absent)

lemma review_of_id_given:
  "wf_obj data \<Longrightarrow> obj_get data ''id'' = Some v \<Longrightarrow> obj_get (review_of n data) ''id'' = Some v"
  by (simp add: review_of_def obj_get_spread)

lemma cast_review_id:
  "cast_doc Reviews ob = Some d \<Longrightarrow> obj_get ob ''id'' = Some (JNum m) \<Longrightarrow>
   obj_get d ''id'' = Some (JNum m)"
  by (drule cast_doc_get [where k = "''id''"]) (simp add: number_fields_def)

text \<open>
  C1 (functional). On a connected store whose ids stay below \<open>2^53\<close>, a body without
  an \<^verbatim>\<open>id\<close> that casts to a review is saved with the id of the contract, one more
  than the greatest stored id, appended to the reviews and sent back with status 200.
\<close>

theorem insert_review_assigns_next_id:
  assumes "connected st" and "obj_get data ''id'' = None"
    and "\<bar>next_id_spec (reviews st)\<bar> < 2 ^ 53"
    and "cast_doc Reviews (review_of (next_id_spec (reviews st)) data) = Some d"
  shows "insert_review data st = (json_ok (JObj d), st\<lparr>reviews := reviews st @ [d]\<rparr>) \<and>
         obj_get d ''id'' = Some (JNum (next_id_spec (reviews st)))"
proof
  show "insert_review data st = (json_ok (JObj d), st\<lparr>reviews := reviews st @ [d]\<rparr>)"
    using assms(1,4) assigned_id_exact [OF assms(3)]
    by (simp add: insert_review_connected save_Reviews)
  show "obj_get d ''id'' = Some (JNum (next_id_spec (reviews st)))"
    using assms(4) review_of_id_absent [OF assms(2)] by (rule cast_review_id)
qed

text \<open>
  C3 (error). When the connection is down or the review does not cast, the handler
  answers 500 with its message and the store is unchanged.
\<close>

theorem insert_review_fails:
  assumes "\<not> connected st \<or> cast_doc Reviews (review_of (assigned_id (reviews st)) data) = None"
  shows "insert_review data st = (json_status 500 ''error'' ''Error inserting review'', st)"
proof (cases "connected st")
  case True
  with assms show ?thesis by (simp add: insert_review_connected save_def)
next
  case False
  then show ?thesis by (rule insert_review_disconnected)
qed

text \<open>
  C10 (functional). An \<^verbatim>\<open>id\<close> in the request body replaces the computed one:
  \<^verbatim>\<open>{id: new_id, ...data}\<close> lets the spread win, so a client chooses the id.
\<close>

theorem insert_review_body_id_wins:
  assumes "connected st" and "wf_obj data" and "obj_get data ''id'' = Some (JNum m)"
    and "cast_doc Reviews (review_of (assigned_id (reviews st)) data) = Some d"
  shows "insert_review data st = (json_ok (JObj d), st\<lparr>reviews := reviews st @ [d]\<rparr>) \<and>
         obj_get d ''id'' = Some (JNum m)"
proof
  show "insert_review data st = (json_ok (JObj d), st\<lparr>reviews := reviews st @ [d]\<rparr>)"
    using assms(1,4) by (simp add: insert_review_connected save_Reviews)
  show "obj_get d ''id'' = Some (JNum m)"
    using assms(4) review_of_id_given [OF assms(2,3)] by (rule cast_review_id)
qed

text \<open>
  C27 (bounds). When the greatest stored id is a non-negative number held exactly, the
  id the handler assigns is the contract's (that id plus one) precisely when the
  greatest id is below \<open>2^53\<close>.
\<close>

theorem assigned_id_exact_iff:
  assumes "next_id_spec docs = m + 1" and "0 \<le> m" and "m + 1 < 2 ^ 54" and "m < 2 ^ 53 \<or> even m"
  shows "assigned_id docs = next_id_spec docs \<longleftrightarrow> m < 2 ^ 53"
  using js_add_one_exact_iff [OF assms(2-4)] assms(1) by (simp add: assigned_id_spec)

text \<open>
  C28 (bounds). When the greatest stored id is a multiple of 4 between \<open>2^53\<close> and
  \<open>2^54\<close>, the handler assigns that same id again.
\<close>

theorem assigned_id_absorbed:
  assumes "next_id_spec docs = m + 1" and "4 dvd m" and "2 ^ 53 \<le> m" and "m < 2 ^ 54"
  shows "assigned_id docs = m"
  using js_add_one_absorbed [OF assms(2-4)] assms(1) by (simp add: assigned_id_spec)

text \<open>
  C29 (bounds). Once a stored review has the id \<open>2^53\<close> (a client may post it, C10),
  \<^verbatim>\<open>new_id\<close> is rounded back to \<open>2^53\<close>: every later insertion without an id
  is saved under that same id, and the ids are no longer distinct.
\<close>

theorem insert_review_id_stuck:
  assumes "connected st" and "obj_get data ''id'' = None"
    and "next_id_spec (reviews st) = 2 ^ 53 + 1"
    and "cast_doc Reviews (review_of (2 ^ 53) data) = Some d"
  shows "insert_review data st = (json_ok (JObj d), st\<lparr>reviews := reviews st @ [d]\<rparr>) \<and>
         obj_get d ''id'' = Some (JNum (2 ^ 53)) \<and>
         \<not> distinct (List.map_filter id_key (reviews st @ [d]))"
proof -
  have a: "assigned_id (reviews st) = 2 ^ 53"
    using assms(3) js_add_pow53 by (simp add: assigned_id_spec)
  have resp: "insert_review data st = (json_ok (JObj d), st\<lparr>reviews := reviews st @ [d]\<rparr>)"
    using assms(1,4) a by (simp add: insert_review_connected save_Reviews)
  have did: "obj_get d ''id'' = Some (JNum (2 ^ 53))"
    using assms(4) review_of_id_absent [OF assms(2)] by (rule cast_review_id)
  have "(2 ^ 53 :: int) \<in> set (List.map_filter id_key (reviews st))"
    using assms(3) by (intro next_id_spec_Max) simp_all
  moreover have "List.map_filter id_key (reviews st @ [d]) = List.map_filter id_key (reviews st) @ [2 ^ 53]"
    using did by (simp add: List.map_filter_def id_key_def)
  ultimately show ?thesis using resp did by simp
qed

subsection \<open>Lemmas: the read handlers\<close>

lemma int_param_num: "parse_int p = Some n \<Longrightarrow> int_param p = QVal (JNum n)"
  by (simp add: int_param_def)

lemma int_param_nan: "parse_int p = None \<Longrightarrow> int_param p = QNaN"
  by (simp add: int_param_def)

lemma find_eq_number:
  assumes "connected st" and "k \<in> set (number_fields c)"
    and "\<forall>d \<in> set (coll_docs c st). number_ok (obj_get d k)"
  shows "find_eq c k (QVal (JNum n)) st = Inr (filter (\<lambda>d. obj_get d k = Some (JNum n)) (coll_docs c st))"
proof -
  have "filter (\<lambda>d. mongo_match (obj_get d k) (QVal (JNum n))) (coll_docs c st)
      = filter (\<lambda>d. obj_get d k = Some (JNum n)) (coll_docs c st)"
    using assms(3) by (intro filter_cong) (simp_all add: number_ok_match)
  with assms(1,2) show ?thesis by (simp add: find_eq_def cast_query_def)
qed

lemma find_eq_nan: "k \<in> set (number_fields c) \<Longrightarrow> find_eq c k QNaN st = Inl CastError"
  by (simp add: find_eq_def cast_query_def)

lemma store_ok_docs:
  "store_ok st \<Longrightarrow> k \<in> set (number_fields c) \<Longrightarrow> \<forall>d \<in> set (coll_docs c st). number_ok (obj_get d k)"
  by (cases c) (auto simp: store_ok_def doc_ok_def coll_docs_def)

text \<open>
  C4 (functional). On a connected store that keeps the schema types, the reviews of
  dealer \<open>n\<close> are exactly the stored reviews whose \<^verbatim>\<open>dealership\<close> is \<open>n\<close>, in
  store order.
\<close>

theorem fetch_reviews_by_dealer_exact:
  assumes "store_ok st" and "connected st" and "parse_int p = Some n"
  shows "fetch_reviews_by_dealer p st =
    json_ok (docs_json (filter (\<lambda>d. obj_get d ''dealership'' = Some (JNum n)) (reviews st)))"
proof -
  have "find_eq Reviews ''dealership'' (QVal (JNum n)) st =
      Inr (filter (\<lambda>d. obj_get d ''dealership'' = Some (JNum n)) (reviews st))"
    using find_eq_number [OF assms(2), of "''dealership''" Reviews n]
      store_ok_docs [OF assms(1), of "''dealership''" Reviews]
    by (simp add: number_fields_def coll_docs_def)
  then show ?thesis
    using assms(3) by (simp add: fetch_reviews_by_dealer_def int_param_num)
qed

text \<open>
  C5 (functional). On a connected store that keeps the schema types,
  \<^verbatim>\<open>/fetchDealer/:id\<close> returns the first dealership with that id, and 404 with
  \<^verbatim>\<open>{"message": "Dealer not found"}\<close> when there is none.
\<close>

theorem fetch_dealer_found_or_404:
  assumes "store_ok st" and "connected st" and "parse_int p = Some n"
  shows "fetch_dealer p st =
    (case filter (\<lambda>d. obj_get d ''id'' = Some (JNum n)) (dealerships st) of
       [] \<Rightarrow> json_status 404 ''message'' ''Dealer not found''
     | d # _ \<Rightarrow> json_ok (JObj d))"
proof -
  have "find_eq Dealerships ''id'' (QVal (JNum n)) st =
      Inr (filter (\<lambda>d. obj_get d ''id'' = Some (JNum n)) (dealerships st))"
    using find_eq_number [OF assms(2), of "''id''" Dealerships n]
      store_ok_docs [OF assms(1), of "''id''" Dealerships]
    by (simp add: number_fields_def coll_docs_def)
  then show ?thesis
    using assms(3)
    by (simp add: fetch_dealer_def int_param_num find_one_eq_def split: list.split)
qed

text \<open>
  C6 (error). A path parameter without leading digits makes \<^verbatim>\<open>parseInt\<close> return
  \<^verbatim>\<open>NaN\<close>, the Number cast of the query fails, and both numeric lookups answer 500,
  whatever the store holds: never the 404 of an absent dealer.
\<close>

theorem numeric_routes_nan_500:
  assumes "parse_int p = None"
  shows "fetch_dealer p st = json_status 500 ''error'' ''Error fetching dealer by id'' \<and>
         fetch_reviews_by_dealer p st = json_status 500 ''error'' ''Error fetching documents''"
  using assms
  by (simp add: fetch_dealer_def fetch_reviews_by_dealer_def int_param_nan find_eq_nan
      find_one_eq_def number_fields_def)

text \<open>
  C9 (functional). \<^verbatim>\<open>/fetchDealers/:state\<close> returns the dealerships whose
  \<^verbatim>\<open>state\<close> is that string, and also those whose \<^verbatim>\<open>state\<close> is an array that
  holds it (the field is loosely typed, and MongoDB equality matches array elements).
\<close>

theorem fetch_dealers_by_state_result:
  assumes "connected st"
  shows "fetch_dealers_by_state s st =
    json_ok (docs_json (filter (\<lambda>d. obj_get d ''state'' = Some (JStr s) \<or>
                                   (\<exists>xs. obj_get d ''state'' = Some (JArr xs) \<and> JStr s \<in> set xs))
                               (dealerships st)))"
proof -
  have "filter (\<lambda>d. mongo_match (obj_get d ''state'') (QVal (JStr s))) (dealerships st) =
      filter (\<lambda>d. obj_get d ''state'' = Some (JStr s) \<or>
                  (\<exists>xs. obj_get d ''state'' = Some (JArr xs) \<and> JStr s \<in> set xs)) (dealerships st)"
    by (intro filter_cong) (auto simp: mongo_match_def split: option.splits jval.splits)
  with assms show ?thesis
    by (simp add: fetch_dealers_by_state_def find_eq_def cast_query_def number_fields_def
        coll_docs_def)
qed

subsection \<open>Lemmas: the store across requests\<close>

lemma insert_review_store:
  "snd (insert_review data st) = st \<or>
   (\<exists>d. cast_doc Reviews (review_of (assigned_id (reviews st)) data) = Some d \<and>
        snd (insert_review data st) = st\<lparr>reviews := reviews st @ [d]\<rparr>)"
proof (cases "connected st")
  case True
  then show ?thesis
    by (auto simp: insert_review_connected save_def set_coll_def coll_docs_def split: option.splits)
next
  case False
  then show ?thesis by (simp add: insert_review_disconnected)
qed

lemma handle_GET_store: "snd (handle (GET ps) st) = st"
  by (cases "(GET ps, st)" rule: handle.cases) auto

lemma handle_POST_store:
  "snd (handle (POST ps data) st) = st \<or> snd (handle (POST ps data) st) = snd (insert_review data st)"
  by (cases "(POST ps data, st)" rule: handle.cases) auto

lemma handle_store:
  "snd (handle r st) = st \<or>
   (\<exists>data d. cast_doc Reviews (review_of (assigned_id (reviews st)) data) = Some d \<and>
        snd (handle r st) = st\<lparr>reviews := reviews st @ [d]\<rparr>)"
proof (cases r)
  case (GET ps)
  then show ?thesis by (simp add: handle_GET_store)
next
  case (POST ps data)
  from handle_POST_store [of ps data st] show ?thesis
  proof
    assume "snd (handle (POST ps data) st) = st"
    with POST show ?thesis by simp
  next
    assume h: "snd (handle (POST ps data) st) = snd (insert_review data st)"
    from insert_review_store [of data st] show ?thesis
    proof
      assume "snd (insert_review data st) = st"
      with h POST show ?thesis by simp
    next
      assume "\<exists>d. cast_doc Reviews (review_of (assigned_id (reviews st)) data) = Some d \<and>
        snd (insert_review data st) = st\<lparr>reviews := reviews st @ [d]\<rparr>"
      then obtain d where "cast_doc Reviews (review_of (assigned_id (reviews st)) data) = Some d"
        and "snd (insert_review data st) = st\<lparr>reviews := reviews st @ [d]\<rparr>" by blast
      with h POST show ?thesis by (intro disjI2 exI [of _ data] exI [of _ d]) simp
    qed
  qed
qed

text \<open>
  C7 (invariant). Every request keeps the stored-document type invariant: each
  document has each key once and its Number fields absent, null or numeric.
\<close>

theorem handle_keeps_store_ok: "store_ok st \<Longrightarrow> store_ok (snd (handle r st))"
  using handle_store [of r st]
  by (auto simp: store_ok_def dest: cast_doc_ok [OF review_of_wf])

text \<open>
  C8 (safety). A request never changes the dealerships or the connection, and changes
  the reviews at most by appending one document.
\<close>

theorem handle_frame:
  "dealerships (snd (handle r st)) = dealerships st \<and>
   connected (snd (handle r st)) = connected st \<and>
   (\<exists>new. reviews (snd (handle r st)) = reviews st @ new \<and> length new \<le> 1)"
proof -
  from handle_store [of r st] show ?thesis
  proof
    assume "snd (handle r st) = st"
    then show ?thesis by (intro conjI exI [of _ "[]"]) simp_all
  next
    assume "\<exists>data d. cast_doc Reviews (review_of (assigned_id (reviews st)) data) = Some d \<and>
        snd (handle r st) = st\<lparr>reviews := reviews st @ [d]\<rparr>"
    then obtain d where "snd (handle r st) = st\<lparr>reviews := reviews st @ [d]\<rparr>" by blast
    then show ?thesis by (intro conjI exI [of _ "[d]"]) simp_all
  qed
qed


subsection \<open>Lemmas: the numeric path parameter\<close>

text \<open>
  C11 (roundtrip). A path built as \<^verbatim>\<open>/fetchDealer/${id}\<close> queries the id as
  \<^verbatim>\<open>parseInt\<close> reads it back: the printed integer rounded to binary64. Below
  \<open>2^53\<close> that is the id itself; above, distinct ids collapse, so that
  \<^verbatim>\<open>/fetchDealer/9007199254740993\<close> queries \<open>2^53\<close>.
\<close>

theorem int_param_int_to_dec:
  "int_param (int_to_dec i) = QVal (JNum (to_double i)) \<and>
   (\<bar>i\<bar> < 2 ^ 53 \<longrightarrow> int_param (int_to_dec i) = QVal (JNum i)) \<and>
   int_param (int_to_dec (2 ^ 53 + 1)) = QVal (JNum (2 ^ 53))"
proof -
  have "to_double (2 ^ 53 + 1) = 2 ^ 53" using js_add_pow53 by (simp add: js_add_def)
  then show ?thesis by (simp add: int_param_def parse_int_int_to_dec to_double_small)
qed

text \<open>
  C12 (functional). The numeric path parameter stops at the first non-digit: a decimal
  number followed by text that does not start with a digit queries that number (as a
  Number: exact below \<open>2^53\<close>), unless the number is 0 and the text starts with
  \<^verbatim>\<open>x\<close> or \<^verbatim>\<open>X\<close>, which \<^verbatim>\<open>parseInt\<close> takes as a hexadecimal prefix.
\<close>

theorem int_param_dec_prefix:
  assumes "take_digits 10 rest = []" and "n \<noteq> 0 \<or> take 1 rest \<notin> {''x'', ''X''}"
  shows "int_param (nat_to_dec n @ rest) = QVal (JNum (to_double (int n))) \<and>
         (n < 2 ^ 53 \<longrightarrow> int_param (nat_to_dec n @ rest) = QVal (JNum (int n)))"
  using parse_int_nat_dec_append [OF assms] by (simp add: int_param_def to_double_nat)

subsection \<open>The shape of every response\<close>

lemma shape_json_ok_docs: "body_shape (status (json_ok (docs_json ds))) (resp_body (json_ok (docs_json ds)))"
  by (simp add: json_ok_def docs_json_def list_all_iff)

lemma shape_json_ok_obj: "body_shape (status (json_ok (JObj ps))) (resp_body (json_ok (JObj ps)))"
proof (cases ps)
  case (Cons p qs)
  then show ?thesis
    by (cases qs; cases p; cases "snd p") (auto simp: json_ok_def)
qed (simp add: json_ok_def)

lemma shape_json_status:
  "body_shape 500 (BJson (JObj [(''error'', JStr m)]))" "body_shape 404 (BJson (JObj [(''message'', JStr m)]))"
  by simp_all

lemmas shape_simps = shape_json_ok_docs shape_json_ok_obj shape_json_status json_status_def

lemma read_handlers_shape:
  "body_shape (status (fetch_reviews st)) (resp_body (fetch_reviews st))"
  "body_shape (status (fetch_dealers st)) (resp_body (fetch_dealers st))"
  "body_shape (status (fetch_reviews_by_dealer p st)) (resp_body (fetch_reviews_by_dealer p st))"
  "body_shape (status (fetch_dealers_by_state a st)) (resp_body (fetch_dealers_by_state a st))"
  "body_shape (status (fetch_dealer p st)) (resp_body (fetch_dealer p st))"
  by (auto simp: fetch_reviews_def fetch_dealers_def fetch_reviews_by_dealer_def Let_def
      fetch_dealers_by_state_def fetch_dealer_def shape_simps json_ok_def [symmetric]
      split: sum.split option.split)

lemma insert_review_shape:
  "body_shape (status (fst (insert_review data st))) (resp_body (fst (insert_review data st)))"
  by (auto simp: insert_review_def shape_simps Let_def json_ok_def [symmetric] split: sum.split prod.split)

text \<open>
  Whatever the request and the store, the router's response has a status among 200,
  404 and 500 and a body of that status's shape.
\<close>

lemma handle_response_type:
  "status (fst (handle r st)) \<in> {200, 404, 500} \<and>
   body_shape (status (fst (handle r st))) (resp_body (fst (handle r st)))"
proof -
  have "body_shape (status (fst (handle r st))) (resp_body (fst (handle r st)))"
    by (cases "(r, st)" rule: handle.cases)
      (simp_all add: read_handlers_shape insert_review_shape welcome_msg_def not_found_def)
  moreover have "body_shape s b \<Longrightarrow> s \<in> {200, 404, 500}" for s b
    by (induction s b rule: body_shape.induct) auto
  ultimately show ?thesis by blast
qed

end
