(* ===== verification/Seeder.thy ===== *)
theory Seeder
  imports Store
begin

text \<open>
  Start-up of \<^verbatim>\<open>src/app.js\<close>: loading the seed files (lines 15--31) and the
  asynchronous seeding block (lines 51--69). A seed file is given by what
  \<^verbatim>\<open>JSON.parse(fs.readFileSync(...))\<close> produced, \<open>None\<close> when reading or parsing
  threw; the module variables \<^verbatim>\<open>reviews_data\<close> and \<^verbatim>\<open>dealerships_data\<close> start
  as \<^verbatim>\<open>null\<close> and keep it on a failure. The seeding block is modelled twice: as the
  code reads, one function through its \<^verbatim>\<open>try\<close> block (\<open>seed_database\<close>), and as
  a phase machine with one step per \<^verbatim>\<open>await\<close> (\<open>seed_step\<close>), which the
  interleaved model of the process runs; \<open>seed_run\<close> iterates the steps and is
  proved to compute \<open>seed_database\<close>. The connection wait
  (\<^verbatim>\<open>mongoose.connection.asPromise()\<close>) resumes when the initial connection attempt
  has settled: it goes on when the store is connected and rejects otherwise.
\<close>

record seed_files =
  reviews_file :: "jval option"
  dealers_file :: "jval option"

record loaded =
  reviews_data :: jval
  dealerships_data :: jval

text \<open>\<^verbatim>\<open>let x = null; try { x = JSON.parse(...) } catch (err) { ... }\<close>\<close>

definition load_seed :: "jval option \<Rightarrow> jval" where
  "load_seed parsed = (case parsed of Some v \<Rightarrow> v | None \<Rightarrow> JNull)"

definition load_seeds :: "seed_files \<Rightarrow> loaded" where
  "load_seeds f = \<lparr>reviews_data = load_seed (reviews_file f),
                   dealerships_data = load_seed (dealers_file f)\<rparr>"

text \<open>
  The records handed to \<^verbatim>\<open>insertMany\<close>: \<^verbatim>\<open>reviews_data.reviews || reviews_data\<close>,
  so a file may wrap its records in an object under the collection's name or be the bare
  array.
\<close>

definition seed_items :: "string \<Rightarrow> jval \<Rightarrow> jval" where
  "seed_items k data = js_or (js_prop data k) data"

text \<open>
  The phases of the seeding block: before each \<^verbatim>\<open>await\<close>, and the three ways it ends
  (seeded, an error caught by the \<^verbatim>\<open>catch\<close>, or skipped by the guard).
\<close>

datatype seed_phase =
    AwaitConnection
  | DeleteReviews
  | DeleteDealers
  | InsertReviews
  | InsertDealers
  | Seeded
  | SeedFailed
  | SeedSkipped

text \<open>The guard \<^verbatim>\<open>if (!reviews_data || !dealerships_data) return;\<close> (line 52).\<close>

definition seed_start :: "loaded \<Rightarrow> seed_phase" where
  "seed_start ld =
     (if \<not> js_truthy (reviews_data ld) \<or> \<not> js_truthy (dealerships_data ld) then SeedSkipped
      else AwaitConnection)"

text \<open>One \<^verbatim>\<open>await\<close> of the \<^verbatim>\<open>try\<close> block (lines 58--65); a rejection ends in the \<^verbatim>\<open>catch\<close>.\<close>

fun seed_step :: "loaded \<Rightarrow> seed_phase \<Rightarrow> store \<Rightarrow> seed_phase \<times> store" where
  "seed_step ld AwaitConnection st =
     (if connected st then (DeleteReviews, st) else (SeedFailed, st))"
| "seed_step ld DeleteReviews st =
     (case delete_all Reviews st of Inl _ \<Rightarrow> (SeedFailed, st) | Inr st' \<Rightarrow> (DeleteDealers, st'))"
| "seed_step ld DeleteDealers st =
     (case delete_all Dealerships st of Inl _ \<Rightarrow> (SeedFailed, st) | Inr st' \<Rightarrow> (InsertReviews, st'))"
| "seed_step ld InsertReviews st =
     (case insert_many Reviews (seed_items ''reviews'' (reviews_data ld)) st of
        Inl _ \<Rightarrow> (SeedFailed, st) | Inr st' \<Rightarrow> (InsertDealers, st'))"
| "seed_step ld InsertDealers st =
     (case insert_many Dealerships (seed_items ''dealerships'' (dealerships_data ld)) st of
        Inl _ \<Rightarrow> (SeedFailed, st) | Inr st' \<Rightarrow> (Seeded, st'))"
| "seed_step ld Seeded st = (Seeded, st)"
| "seed_step ld SeedFailed st = (SeedFailed, st)"
| "seed_step ld SeedSkipped st = (SeedSkipped, st)"

text \<open>How many steps a phase is from the end; 0 for the three final phases.\<close>

fun phase_rank :: "seed_phase \<Rightarrow> nat" where
  "phase_rank AwaitConnection = 5"
| "phase_rank DeleteReviews = 4"
| "phase_rank DeleteDealers = 3"
| "phase_rank InsertReviews = 2"
| "phase_rank InsertDealers = 1"
| "phase_rank _ = 0"

definition seed_final :: "seed_phase \<Rightarrow> bool" where
  "seed_final ph \<longleftrightarrow> phase_rank ph = 0"

lemma seed_step_rank:
  "\<not> seed_final ph \<Longrightarrow> phase_rank (fst (seed_step ld ph st)) < phase_rank ph"
  by (cases ph) (auto simp: seed_final_def split: sum.split)

function seed_run :: "loaded \<Rightarrow> seed_phase \<Rightarrow> store \<Rightarrow> seed_phase \<times> store" where
  "seed_run ld ph st =
     (if seed_final ph then (ph, st)
      else (case seed_step ld ph st of (ph', st') \<Rightarrow> seed_run ld ph' st'))"
  by pat_completeness auto
termination
  by (relation "measure (\<lambda>(ld, ph, st). phase_rank ph)")
    (simp_all add: case_prod_beta seed_step_rank)

text \<open>The seeding block as the code reads: the guard, then the awaits in order.\<close>

definition seed_database :: "loaded \<Rightarrow> store \<Rightarrow> seed_phase \<times> store" where
  "seed_database ld st =
     (if \<not> js_truthy (reviews_data ld) \<or> \<not> js_truthy (dealerships_data ld) then (SeedSkipped, st)
      else if \<not> connected st then (SeedFailed, st)
      else (case delete_all Reviews st of Inl _ \<Rightarrow> (SeedFailed, st) | Inr st1 \<Rightarrow>
           (case delete_all Dealerships st1 of Inl _ \<Rightarrow> (SeedFailed, st1) | Inr st2 \<Rightarrow>
           (case insert_many Reviews (seed_items ''reviews'' (reviews_data ld)) st2 of
              Inl _ \<Rightarrow> (SeedFailed, st2) | Inr st3 \<Rightarrow>
           (case insert_many Dealerships (seed_items ''dealerships'' (dealerships_data ld)) st3 of
              Inl _ \<Rightarrow> (SeedFailed, st3) | Inr st4 \<Rightarrow> (Seeded, st4))))))"

declare load_seed_def [store_simps] load_seeds_def [store_simps] seed_items_def [store_simps]
  seed_start_def [store_simps] seed_final_def [store_simps] seed_database_def [store_simps]

declare seed_run.simps [simp del]


subsection \<open>Lemmas: the store calls of the seeding block\<close>

lemma delete_all_ok: "connected st \<Longrightarrow> delete_all c st = Inr (set_coll c [] st)"
  by (simp add: delete_all_def)

lemma insert_many_ok:
  "connected st \<Longrightarrow> cast_many c v = Some ds \<Longrightarrow>
   insert_many c v st = Inr (set_coll c (coll_docs c st @ ds) st)"
  by (simp add: insert_many_def)

lemma insert_many_invalid: "cast_many c v = None \<Longrightarrow> insert_many c v st = Inl ValidationError"
  by (simp add: insert_many_def)

lemma seed_run_final: "seed_final ph \<Longrightarrow> seed_run ld ph st = (ph, st)"
  by (simp add: seed_run.simps)

lemma seed_run_step:
  "\<not> seed_final ph \<Longrightarrow> seed_run ld ph st = seed_run ld (fst (seed_step ld ph st)) (snd (seed_step ld ph st))"
  by (simp add: seed_run.simps [of ld ph st] split: prod.split)

lemma seed_final_simps [simp]:
  "seed_final Seeded" "seed_final SeedFailed" "seed_final SeedSkipped"
  "\<not> seed_final AwaitConnection" "\<not> seed_final DeleteReviews" "\<not> seed_final DeleteDealers"
  "\<not> seed_final InsertReviews" "\<not> seed_final InsertDealers"
  by (simp_all add: seed_final_def)

lemma set_coll_simps [simp]:
  "set_coll Reviews ds st = st\<lparr>reviews := ds\<rparr>"
  "set_coll Dealerships ds st = st\<lparr>dealerships := ds\<rparr>"
  "coll_docs Reviews st = reviews st"
  "coll_docs Dealerships st = dealerships st"
  by (simp_all add: set_coll_def coll_docs_def)

text \<open>
  The phase machine from \<open>InsertReviews\<close> on, and from the start: each unfolding is one
  \<^verbatim>\<open>await\<close>.
\<close>

lemma seed_run_from_insert:
  "seed_run ld InsertReviews st =
     (case insert_many Reviews (seed_items ''reviews'' (reviews_data ld)) st of
        Inl _ \<Rightarrow> (SeedFailed, st)
      | Inr st3 \<Rightarrow>
          (case insert_many Dealerships (seed_items ''dealerships'' (dealerships_data ld)) st3 of
             Inl _ \<Rightarrow> (SeedFailed, st3) | Inr st4 \<Rightarrow> (Seeded, st4)))"
  by (simp add: seed_run_step seed_run_final split: sum.split)

lemma seed_run_connected:
  "connected st \<Longrightarrow> seed_run ld AwaitConnection st = seed_run ld InsertReviews (st\<lparr>reviews := [], dealerships := []\<rparr>)"
  by (simp add: seed_run_step delete_all_ok)

lemma seed_database_connected:
  "js_truthy (reviews_data ld) \<Longrightarrow> js_truthy (dealerships_data ld) \<Longrightarrow> connected st \<Longrightarrow>
   seed_database ld st = seed_run ld InsertReviews (st\<lparr>reviews := [], dealerships := []\<rparr>)"
  by (simp add: seed_database_def delete_all_ok seed_run_from_insert)

text \<open>
  The phase machine, started where the guard leaves it and run to a
  final phase, computes what the seeding block computes.
\<close>

lemma seed_run_refines: "seed_run ld (seed_start ld) st = seed_database ld st"
proof (cases "js_truthy (reviews_data ld) \<and> js_truthy (dealerships_data ld)")
  case False
  then show ?thesis by (auto simp: seed_start_def seed_database_def seed_run_final)
next
  case True
  show ?thesis
  proof (cases "connected st")
    case False
    with True show ?thesis by (simp add: seed_start_def seed_database_def seed_run_step seed_run_final)
  next
    case c: True
    with True show ?thesis
      by (simp add: seed_start_def seed_run_connected seed_database_connected)
  qed
qed

subsection \<open>Lemmas: the outcome of seeding\<close>

text \<open>
  C13 (functional). With both files loaded, the connection up and every seed record
  casting, seeding replaces the two collections by exactly the cast seed records.
\<close>

theorem seed_database_seeded:
  assumes "js_truthy (reviews_data ld)" and "js_truthy (dealerships_data ld)" and "connected st"
    and "cast_many Reviews (seed_items ''reviews'' (reviews_data ld)) = Some rs"
    and "cast_many Dealerships (seed_items ''dealerships'' (dealerships_data ld)) = Some ds"
  shows "seed_database ld st = (Seeded, st\<lparr>reviews := rs, dealerships := ds\<rparr>)"
  using assms by (simp add: seed_database_connected seed_run_from_insert insert_many_ok)

text \<open>
  C14 (error). The seeding block is not atomic: when the dealership records do not cast,
  the reviews have already been replaced and the dealerships deleted, and the block
  ends in its \<^verbatim>\<open>catch\<close> with nothing rolled back.
\<close>

theorem seed_database_partial_failure:
  assumes "js_truthy (reviews_data ld)" and "js_truthy (dealerships_data ld)" and "connected st"
    and "cast_many Reviews (seed_items ''reviews'' (reviews_data ld)) = Some rs"
    and "cast_many Dealerships (seed_items ''dealerships'' (dealerships_data ld)) = None"
  shows "seed_database ld st = (SeedFailed, st\<lparr>reviews := rs, dealerships := []\<rparr>)"
  using assms
  by (simp add: seed_database_connected seed_run_from_insert insert_many_ok insert_many_invalid)

lemma seed_database_guard:
  "\<not> js_truthy (reviews_data ld) \<or> \<not> js_truthy (dealerships_data ld) \<Longrightarrow>
   seed_database ld st = (SeedSkipped, st)"
  by (auto simp: seed_database_def)

text \<open>
  C15 (error). When either seed file cannot be read or parsed, seeding is skipped and
  the store is left exactly as it was: the collections keep whatever an earlier run
  stored, they are not emptied.
\<close>

theorem seed_load_failure_keeps_store:
  assumes "reviews_file f = None \<or> dealers_file f = None"
  shows "seed_database (load_seeds f) st = (SeedSkipped, st)"
  using assms by (auto intro: seed_database_guard simp: load_seeds_def load_seed_def)

text \<open>
  Both accepted shapes of a seed file give the same records: an object wrapping the
  array under the collection's name, and the bare array.
\<close>

lemma seed_items_shapes:
  "seed_items k (JObj [(k, JArr xs)]) = JArr xs \<and> seed_items k (JArr xs) = JArr xs"
  by (simp add: seed_items_def js_or_def)

text \<open>
  C16 (functional). A wrapping object whose collection field is falsy (\<^verbatim>\<open>null\<close>,
  \<^verbatim>\<open>0\<close>, \<^verbatim>\<open>""\<close>, \<^verbatim>\<open>false\<close>) is itself handed to \<^verbatim>\<open>insertMany\<close> and becomes
  one document of the collection.
\<close>

theorem seed_items_falsy_wrapper:
  assumes "\<not> js_truthy x"
  shows "cast_many c (seed_items k (JObj ((k, x) # ps))) = map_option (\<lambda>d. [d]) (cast_doc c ((k, x) # ps))"
  using assms by (simp add: seed_items_def js_or_def cast_many_def cast_value_def split: option.split)

text \<open>
  The phase machine always ends, in one of the three final phases,
  from any phase.
\<close>

lemma seed_run_ends: "seed_final (fst (seed_run ld ph st))"
proof (induction ld ph st rule: seed_run.induct)
  case (1 ld ph st)
  show ?case
  proof (cases "seed_final ph")
    case True
    then show ?thesis by (simp add: seed_run_final)
  next
    case False
    with "1.IH" show ?thesis by (simp add: seed_run_step split: prod.split)
  qed
qed

subsection \<open>Lemmas: the seeded documents keep the store invariant\<close>

lemma wf_jval_prop: "wf_jval v \<Longrightarrow> js_prop v k = Some x \<Longrightarrow> wf_jval x"
  by (cases v) (auto dest: map_of_SomeD)

lemma wf_jval_seed_items: "wf_jval v \<Longrightarrow> wf_jval (seed_items k v)"
  by (auto simp: seed_items_def js_or_def dest: wf_jval_prop split: option.split)

lemma cast_value_ok: "wf_jval v \<Longrightarrow> cast_value c v = Some d \<Longrightarrow> doc_ok c d"
  by (cases v) (auto simp: cast_value_def wf_obj_def intro: cast_doc_ok)

lemma cast_many_ok:
  assumes "wf_jval v" and "cast_many c v = Some ds"
  shows "\<forall>d \<in> set ds. doc_ok c d"
proof -
  let ?xs = "case v of JArr xs \<Rightarrow> xs | _ \<Rightarrow> [v]"
  have wf: "\<forall>x \<in> set ?xs. wf_jval x" using assms(1) by (cases v) auto
  from assms(2) have "(\<forall>x \<in> set ?xs. cast_value c x \<noteq> None) \<and> ds = map (the \<circ> cast_value c) ?xs"
    by (simp add: cast_many_def those_map_Some)
  with wf show ?thesis by (auto intro: cast_value_ok)
qed

lemma store_ok_append:
  "store_ok st \<Longrightarrow> \<forall>d \<in> set ds. doc_ok Reviews d \<Longrightarrow> store_ok (st\<lparr>reviews := reviews st @ ds\<rparr>)"
  "store_ok st \<Longrightarrow> \<forall>d \<in> set ds. doc_ok Dealerships d \<Longrightarrow> store_ok (st\<lparr>dealerships := dealerships st @ ds\<rparr>)"
  by (auto simp: store_ok_def)

lemma insert_many_store_ok:
  assumes "wf_jval v" and "store_ok st" and "insert_many c v st = Inr st'"
  shows "store_ok st'"
proof -
  from assms(3) obtain ds where ds: "cast_many c v = Some ds"
    and st': "st' = set_coll c (coll_docs c st @ ds) st"
    by (auto simp: insert_many_def split: option.splits if_splits)
  have "\<forall>d \<in> set ds. doc_ok c d" using assms(1) ds by (rule cast_many_ok)
  with assms(2) st' show ?thesis by (cases c) (simp_all add: store_ok_append)
qed

lemma seed_step_store_ok:
  assumes "wf_jval (reviews_data ld)" and "wf_jval (dealerships_data ld)" and "store_ok st"
  shows "store_ok (snd (seed_step ld ph st))"
proof (cases ph)
  case InsertReviews
  then show ?thesis
    using assms insert_many_store_ok [OF wf_jval_seed_items [OF assms(1)]]
    by (auto split: sum.split)
next
  case InsertDealers
  then show ?thesis
    using assms insert_many_store_ok [OF wf_jval_seed_items [OF assms(2)]]
    by (auto split: sum.split)
qed (use assms(3) in \<open>auto simp: delete_all_def store_ok_def split: sum.split\<close>)

lemma seed_run_store_ok:
  "wf_jval (reviews_data ld) \<Longrightarrow> wf_jval (dealerships_data ld) \<Longrightarrow> store_ok st \<Longrightarrow>
   store_ok (snd (seed_run ld ph st))"
proof (induction ld ph st rule: seed_run.induct)
  case (1 ld ph st)
  show ?case
  proof (cases "seed_final ph")
    case True
    with "1.prems" show ?thesis by (simp add: seed_run_final)
  next
    case False
    obtain ph' st' where s: "seed_step ld ph st = (ph', st')" by (cases "seed_step ld ph st")
    have "store_ok st'" using seed_step_store_ok [OF "1.prems", of ph] s by simp
    then have "store_ok (snd (seed_run ld ph' st'))" using "1.IH" [OF False s [symmetric]] "1.prems" by simp
    with False s show ?thesis by (simp add: seed_run_step)
  qed
qed

text \<open>
  C17 (invariant). Seeding from parsed seed files keeps the stored-document invariant.
\<close>

theorem seed_database_store_ok:
  assumes "wf_jval (reviews_data ld)" and "wf_jval (dealerships_data ld)" and "store_ok st"
  shows "store_ok (snd (seed_database ld st))"
proof (cases "js_truthy (reviews_data ld) \<and> js_truthy (dealerships_data ld) \<and> connected st")
  case True
  have "store_ok (st\<lparr>reviews := [], dealerships := []\<rparr>)" by (simp add: store_ok_def)
  with True assms show ?thesis by (simp add: seed_database_connected seed_run_store_ok)
next
  case False
  with assms(3) show ?thesis by (auto simp: seed_database_def)
qed

end
