(* ===== verification/Http.thy ===== *)
theory Http
  imports Router
begin

text \<open>
  What stands between the network and the router in \<^verbatim>\<open>src/app.js\<close>: the
  configuration read from the environment (lines 9 and 33) and the middleware stack
  (lines 11--13), \<^verbatim>\<open>cors()\<close>, \<^verbatim>\<open>bodyParser.urlencoded({extended: false})\<close> and
  \<^verbatim>\<open>express.json()\<close>. The middleware runs for every request before any route.

  The environment maps a variable to its string, \<open>None\<close> when it is unset (a
  JavaScript \<^verbatim>\<open>undefined\<close>). A request body arrives as what its
  \<^verbatim>\<open>Content-Type\<close> selects: a form (\<^verbatim>\<open>application/x-www-form-urlencoded\<close>) as
  its raw text, a JSON body as its byte length and the value \<^verbatim>\<open>JSON.parse\<close>
  gives (the JSON text syntax is not modelled), anything else as no body. The
  parsers reject a body over their default limit of 100kb, and the form parser a body
  with 1000 or more \<^verbatim>\<open>&\<close> (its \<^verbatim>\<open>parameterLimit\<close>), with 413; the JSON parser
  in its default strict mode accepts only an object or an array and answers 400
  otherwise. Express's error handler then sends its error page (abridged here to the
  message). With no parser matching, \<^verbatim>\<open>req.body\<close> is \<^verbatim>\<open>{}\<close>.

  Forms are decoded as Node's \<^verbatim>\<open>querystring.parse\<close> does: pieces split at
  \<^verbatim>\<open>&\<close>, empty pieces skipped, key and value split at the first \<^verbatim>\<open>=\<close>,
  \<^verbatim>\<open>+\<close> read as a space and \<^verbatim>\<open>%XX\<close> as the byte \<open>XX\<close> (a \<^verbatim>\<open>%\<close> not followed
  by two hex digits kept as it is), a repeated key collecting its values in an
  array. Each decoded byte is one character: exact for ASCII text; a UTF-8 sequence
  \<^verbatim>\<open>%C3%A9\<close> that Node decodes to one character is two characters here.
\<close>

subsection \<open>Configuration\<close>

type_synonym env = "string \<Rightarrow> string option"

definition env_val :: "env \<Rightarrow> string \<Rightarrow> jval option" where
  "env_val e k = map_option JStr (e k)"

text \<open>\<^verbatim>\<open>process.env.PORT || 3030\<close> (line 9).\<close>

definition port :: "env \<Rightarrow> jval" where
  "port e = js_or (env_val e ''PORT'') (JNum 3030)"

text \<open>\<^verbatim>\<open>process.env.MONGO_URI || 'mongodb://mongo_db:27017/dealershipsDB'\<close> (line 33).\<close>

definition mongo_uri :: "env \<Rightarrow> jval" where
  "mongo_uri e = js_or (env_val e ''MONGO_URI'') (JStr ''mongodb://mongo_db:27017/dealershipsDB'')"

subsection \<open>Decoding a form\<close>

fun split_on :: "char \<Rightarrow> string \<Rightarrow> string list" where
  "split_on c [] = [[]]"
| "split_on c (x # xs) =
     (if x = c then [] # split_on c xs
      else (case split_on c xs of [] \<Rightarrow> [[x]] | p # ps \<Rightarrow> (x # p) # ps))"

fun pct_decode :: "string \<Rightarrow> string" where
  "pct_decode [] = []"
| "pct_decode (c # rest) =
     (if c = CHR ''+'' then CHR '' '' # pct_decode rest
      else if c = CHR ''%'' then
        (case rest of
           a # b # rest' \<Rightarrow>
             (case (digit_val 16 a, digit_val 16 b) of
                (Some x, Some y) \<Rightarrow> char_of (16 * x + y) # pct_decode rest'
              | _ \<Rightarrow> c # pct_decode rest)
         | _ \<Rightarrow> c # pct_decode rest)
      else c # pct_decode rest)"

text \<open>A piece \<^verbatim>\<open>k=v\<close> split at its first \<^verbatim>\<open>=\<close>; without one the value is empty.\<close>

definition split_eq :: "string \<Rightarrow> string \<times> string" where
  "split_eq piece = (takeWhile (\<lambda>c. c \<noteq> CHR ''='') piece, drop 1 (dropWhile (\<lambda>c. c \<noteq> CHR ''='') piece))"

fun qs_add :: "string \<Rightarrow> string \<Rightarrow> obj \<Rightarrow> obj" where
  "qs_add k v [] = [(k, JStr v)]"
| "qs_add k v ((k', x) # ps) =
     (if k = k' then (k', case x of JArr xs \<Rightarrow> JArr (xs @ [JStr v]) | _ \<Rightarrow> JArr [x, JStr v]) # ps
      else (k', x) # qs_add k v ps)"

definition qs_parse :: "string \<Rightarrow> obj" where
  "qs_parse s =
     foldl (\<lambda>ob piece. if piece = [] then ob
                        else qs_add (pct_decode (fst (split_eq piece))) (pct_decode (snd (split_eq piece))) ob)
       [] (split_on (CHR ''&'') s)"

text \<open>
  The client side, for the round trip: how a browser encodes a form. Letters, digits
  and \<^verbatim>\<open>*-._\<close> stay, a space becomes \<^verbatim>\<open>+\<close>, any other character its
  \<^verbatim>\<open>%XX\<close>.
\<close>

definition hex_digit :: "nat \<Rightarrow> char" where
  "hex_digit n = (if n < 10 then char_of (48 + n) else char_of (55 + n))"

definition form_safe :: "char \<Rightarrow> bool" where
  "form_safe c \<longleftrightarrow>
     (let n = of_char c :: nat
      in (48 \<le> n \<and> n \<le> 57) \<or> (65 \<le> n \<and> n \<le> 90) \<or> (97 \<le> n \<and> n \<le> 122) \<or> n \<in> {42, 45, 46, 95})"

definition enc_char :: "char \<Rightarrow> string" where
  "enc_char c =
     (if form_safe c then [c] else if c = CHR '' '' then ''+''
      else [CHR ''%'', hex_digit (of_char c div 16), hex_digit (of_char c mod 16)])"

definition pct_encode :: "string \<Rightarrow> string" where
  "pct_encode s = concat (map enc_char s)"

fun form_encode :: "(string \<times> string) list \<Rightarrow> string" where
  "form_encode [] = []"
| "form_encode [(k, v)] = pct_encode k @ ''='' @ pct_encode v"
| "form_encode ((k, v) # kvs) = pct_encode k @ ''='' @ pct_encode v @ ''&'' @ form_encode kvs"

definition form_piece :: "string \<times> string \<Rightarrow> string" where
  "form_piece kv = pct_encode (fst kv) @ ''='' @ pct_encode (snd kv)"

subsection \<open>The middleware\<close>

datatype content = FormBody string | JsonBody nat jval | NoBody

definition body_limit :: nat where
  "body_limit = 100 * 1024"

definition error_page :: "nat \<Rightarrow> string \<Rightarrow> response" where
  "error_page n msg = \<lparr>status = n, resp_body = BText msg\<rparr>"

text \<open>\<^verbatim>\<open>req.body\<close> after the two parsers, or the error they pass to Express.\<close>

fun parse_body :: "content \<Rightarrow> response + jval" where
  "parse_body (FormBody s) =
     (if body_limit < length s then Inl (error_page 413 ''request entity too large'')
      else if 1000 \<le> length (filter (\<lambda>c. c = CHR ''&'') s) then Inl (error_page 413 ''too many parameters'')
      else Inr (JObj (qs_parse s)))"
| "parse_body (JsonBody n v) =
     (if body_limit < n then Inl (error_page 413 ''request entity too large'')
      else case v of JObj ps \<Rightarrow> Inr v | JArr xs \<Rightarrow> Inr v
                   | _ \<Rightarrow> Inl (error_page 400 ''Unexpected token''))"
| "parse_body NoBody = Inr (JObj [])"

text \<open>
  What \<^verbatim>\<open>...data\<close> copies out of \<^verbatim>\<open>req.body\<close>: the properties of an object, the
  indices (as decimal strings) and entries of an array.
\<close>

fun spread_source :: "jval \<Rightarrow> obj" where
  "spread_source (JObj ps) = ps"
| "spread_source (JArr xs) = zip (map (int_to_dec \<circ> int) [0..<length xs]) xs"
| "spread_source _ = []"

datatype http_request = HGet "string list" | HPost "string list" content | HOptions "string list"

text \<open>
  The middleware in front of the routes (lines 11--13): \<^verbatim>\<open>cors()\<close> answers a
  preflight \<^verbatim>\<open>OPTIONS\<close> with 204 itself; a \<^verbatim>\<open>POST\<close> body goes through the
  parsers, which either answer with their error or set \<^verbatim>\<open>req.body\<close>, whose spread
  the route sees. \<open>Inl\<close> is a response sent by the middleware, \<open>Inr\<close> the request
  handed on to the router.
\<close>

fun middleware :: "http_request \<Rightarrow> response + request" where
  "middleware (HOptions ps) = Inl \<lparr>status = 204, resp_body = BText []\<rparr>"
| "middleware (HGet ps) = Inr (GET ps)"
| "middleware (HPost ps c) =
     (case parse_body c of
        Inl err \<Rightarrow> Inl err
      | Inr body \<Rightarrow> Inr (POST ps (spread_source body)))"

text \<open>One request through the whole stack: the middleware, then the router.\<close>

definition serve :: "http_request \<Rightarrow> store \<Rightarrow> response \<times> store" where
  "serve rq st = (case middleware rq of Inl resp \<Rightarrow> (resp, st) | Inr r \<Rightarrow> handle r st)"

text \<open>
  The shape a client may expect of any response of the stack: the middleware's own
  answers (204 to a preflight, 400 and 413 from the parsers) carry text; the
  router's follow \<open>body_shape\<close>.
\<close>

definition resp_shape :: "response \<Rightarrow> bool" where
  "resp_shape r =
     (if status r \<in> {204, 400, 413} then (case resp_body r of BText t \<Rightarrow> True | BJson v \<Rightarrow> False)
      else body_shape (status r) (resp_body r))"

subsection \<open>Binding the listener\<close>

text \<open>
  \<^verbatim>\<open>app.listen(port, ...)\<close> (lines 135--137) hands \<open>port\<close> to Node's
  \<^verbatim>\<open>server.listen\<close>. A string whose \<^verbatim>\<open>Number\<close> value is not \<open>\<ge> 0\<close>
  (\<^verbatim>\<open>NaN\<close> or negative) is a pipe name: the server listens on a local socket of
  that path. Anything else is a port and must pass \<^verbatim>\<open>validatePort\<close>: not a blank
  string, an integer from 0 to 65535; otherwise \<^verbatim>\<open>listen\<close> throws
  \<^verbatim>\<open>ERR_SOCKET_BAD_PORT\<close> and the process exits at start-up. A string that is a
  numeric literal but not an integer of the value model (a fraction, an exponent,
  \<^verbatim>\<open>Infinity\<close>) is outside the model: \<open>None\<close>.
\<close>

datatype bind_addr = TcpPort nat | PipePath string | BadPort

fun listen_target :: "jval \<Rightarrow> bind_addr option" where
  "listen_target (JNum n) = Some (if 0 \<le> n \<and> n \<le> 65535 then TcpPort (nat n) else BadPort)"
| "listen_target (JStr s) =
     (if js_trim s = [] then Some BadPort
      else case js_string_to_int s of
             Some n \<Rightarrow> Some (if n < 0 then PipePath s else if n \<le> 65535 then TcpPort (nat n) else BadPort)
           | None \<Rightarrow> if str_numeric (js_trim s) then None else Some (PipePath s))"
| "listen_target _ = None"

definition listen_addr :: "env \<Rightarrow> bind_addr option" where
  "listen_addr e = listen_target (port e)"

subsection \<open>Lemmas: the stack\<close>

lemma serve_simps [simp]:
  "serve (HOptions ps) st = (\<lparr>status = 204, resp_body = BText []\<rparr>, st)"
  "serve (HGet ps) st = handle (GET ps) st"
  "serve (HPost ps c) st =
     (case parse_body c of Inl err \<Rightarrow> (err, st) | Inr body \<Rightarrow> handle (POST ps (spread_source body)) st)"
  by (simp_all add: serve_def split: sum.split)

lemma middleware_json [simp]: "middleware (HPost ps (JsonBody 0 (JObj data))) = Inr (POST ps data)"
  by simp

lemma middleware_onto: "\<exists>rq. middleware rq = Inr r"
proof (cases r)
  case (GET ps)
  then show ?thesis by (intro exI [of _ "HGet ps"]) simp
next
  case (POST ps data)
  then show ?thesis by (intro exI [of _ "HPost ps (JsonBody 0 (JObj data))"]) simp
qed

lemma middleware_shape: "middleware rq = Inl r \<Longrightarrow> resp_shape r"
proof (cases rq)
  case (HPost ps c)
  moreover assume "middleware rq = Inl r"
  ultimately show ?thesis
    by (cases c) (auto simp: resp_shape_def error_page_def split: if_splits jval.splits)
qed (auto simp: resp_shape_def)

lemma handle_shape: "resp_shape (fst (handle r st))"
  using handle_response_type [of r st] by (auto simp: resp_shape_def)

subsection \<open>Lemmas: decoding what a browser encodes\<close>

lemma of_char_hex_digit: "n < 16 \<Longrightarrow> of_char (hex_digit n) = (if n < 10 then 48 + n else 55 + n)"
  by (simp add: hex_digit_def of_char_of)

lemma digit_val_hex_digit: "n < 16 \<Longrightarrow> digit_val 16 (hex_digit n) = Some n"
  by (simp add: digit_val_def of_char_hex_digit Let_def)

lemma hex_digit_special:
  assumes "n < 16"
  shows "hex_digit n \<notin> {CHR ''&'', CHR ''='', CHR ''+'', CHR ''%''}"
proof -
  have "of_char (hex_digit n) \<notin> {38, 61, 43, 37 :: nat}"
    using assms by (simp add: of_char_hex_digit)
  then show ?thesis by auto
qed

lemma of_char_div_mod_16: "of_char c div 16 < (16::nat)" "of_char c mod 16 < (16::nat)"
  using nat_of_char_less_256 [of c] by (simp_all add: div_less_iff_less_mult)

lemma form_safe_special: "form_safe c \<Longrightarrow> c \<notin> {CHR ''&'', CHR ''='', CHR ''+'', CHR ''%''}"
  by (auto simp: form_safe_def)

lemma enc_char_special: "x \<in> set (enc_char c) \<Longrightarrow> x \<notin> {CHR ''&'', CHR ''=''}"
  using hex_digit_special [OF of_char_div_mod_16(1) [of c]] hex_digit_special [OF of_char_div_mod_16(2) [of c]]
    form_safe_special [of c]
  by (auto simp: enc_char_def split: if_splits)

lemma pct_encode_special: "x \<in> set (pct_encode s) \<Longrightarrow> x \<notin> {CHR ''&'', CHR ''=''}"
  by (auto simp: pct_encode_def dest: enc_char_special)

lemma pct_decode_enc_char: "pct_decode (enc_char c @ rest) = c # pct_decode rest"
proof -
  note hi = of_char_div_mod_16(1) [of c] and lo = of_char_div_mod_16(2) [of c]
  have "char_of (16 * (of_char c div 16) + of_char c mod 16) = c"
    by (simp add: char_of_char)
  then show ?thesis
    using form_safe_special [of c] digit_val_hex_digit [OF hi] digit_val_hex_digit [OF lo]
    by (auto simp: enc_char_def)
qed

lemma pct_decode_encode_append: "pct_decode (pct_encode s @ rest) = s @ pct_decode rest"
  by (induction s) (simp_all add: pct_encode_def pct_decode_enc_char)

lemma pct_decode_encode: "pct_decode (pct_encode s) = s"
  using pct_decode_encode_append [of s "[]"] by simp

lemma split_on_none: "c \<notin> set p \<Longrightarrow> split_on c p = [p]"
  by (induction p) auto

lemma split_on_append: "c \<notin> set p \<Longrightarrow> split_on c (p @ c # rest) = p # split_on c rest"
proof (induction p)
  case (Cons x p)
  then show ?case by (cases "split_on c (p @ c # rest)") auto
qed simp

lemma form_piece_no_amp: "CHR ''&'' \<notin> set (form_piece kv)"
  using pct_encode_special by (fastforce simp: form_piece_def)

lemma split_form_encode:
  "kvs \<noteq> [] \<Longrightarrow> split_on (CHR ''&'') (form_encode kvs) = map form_piece kvs"
proof (induction kvs rule: form_encode.induct)
  case (2 k v)
  then show ?case using split_on_none [OF form_piece_no_amp [of "(k, v)"]] by (simp add: form_piece_def)
next
  case (3 k v kv kvs)
  then show ?case
    using split_on_append [OF form_piece_no_amp [of "(k, v)"], of "form_encode (kv # kvs)"]
    by (simp add: form_piece_def)
qed simp

lemma split_eq_form_piece: "split_eq (form_piece (k, v)) = (pct_encode k, pct_encode v)"
proof -
  have "\<forall>x \<in> set (pct_encode k). x \<noteq> CHR ''=''" using pct_encode_special by blast
  then show ?thesis by (simp add: split_eq_def form_piece_def takeWhile_append2 dropWhile_append2)
qed

lemma qs_add_fresh: "k \<notin> fst ` set ob \<Longrightarrow> qs_add k v ob = ob @ [(k, JStr v)]"
  by (induction k v ob rule: qs_add.induct) auto

lemma qs_fold_fresh:
  assumes "distinct (map fst kvs)" and "fst ` set ob \<inter> fst ` set kvs = {}"
  shows "foldl (\<lambda>ob piece. if piece = [] then ob
                  else qs_add (pct_decode (fst (split_eq piece))) (pct_decode (snd (split_eq piece))) ob)
           ob (map form_piece kvs) = ob @ map (\<lambda>(k, v). (k, JStr v)) kvs"
  using assms
proof (induction kvs arbitrary: ob)
  case (Cons kv kvs)
  obtain k v where kv: "kv = (k, v)" by (cases kv)
  have np: "form_piece kv \<noteq> []" by (simp add: form_piece_def)
  have fresh: "k \<notin> fst ` set ob" using Cons.prems(2) kv by auto
  have "fst ` set (ob @ [(k, JStr v)]) \<inter> fst ` set kvs = {}"
    using Cons.prems kv by auto
  then show ?case
    using Cons.IH [of "ob @ [(k, JStr v)]"] Cons.prems(1) np kv
    by (simp add: split_eq_form_piece pct_decode_encode qs_add_fresh [OF fresh])
qed simp

lemma count_amp_form_encode:
  "length (filter (\<lambda>c. c = CHR ''&'') (form_encode kvs)) = length kvs - 1"
proof (induction kvs rule: form_encode.induct)
  case (2 k v)
  then show ?case using form_piece_no_amp [of "(k, v)"]
    by (auto simp: form_piece_def filter_empty_conv)
next
  case (3 k v kv kvs)
  then show ?case using form_piece_no_amp [of "(k, v)"]
    by (auto simp: form_piece_def filter_empty_conv)
qed simp

lemma qs_parse_form_encode:
  assumes "distinct (map fst kvs)"
  shows "qs_parse (form_encode kvs) = map (\<lambda>(k, v). (k, JStr v)) kvs"
proof (cases "kvs = []")
  case False
  then show ?thesis
    using qs_fold_fresh [OF assms, of "[]"] by (simp add: qs_parse_def split_form_encode)
qed (simp add: qs_parse_def)

lemma serve_post_body:
  "parse_body c = Inr v \<Longrightarrow> serve (HPost ps c) st = handle (POST ps (spread_source v)) st"
  by simp

lemma insert_review_exact:
  assumes "connected st" and "\<bar>next_id_spec (reviews st)\<bar> < 2 ^ 53"
    and "cast_doc Reviews (review_of (next_id_spec (reviews st)) data) = Some d"
  shows "insert_review data st = (json_ok (JObj d), st\<lparr>reviews := reviews st @ [d]\<rparr>)"
  using assms assigned_id_exact [OF assms(2)] by (simp add: insert_review_connected save_Reviews)

lemma handle_POST_writes:
  "snd (handle (POST ps data) st) \<noteq> st \<Longrightarrow> \<exists>a. ps = [a] \<and> seg_eq ''insert_review'' a"
  by (cases "(POST ps data, st)" rule: handle.cases) (auto split: if_splits)

subsection \<open>Properties of the middleware\<close>

text \<open>
  C31 (roundtrip). A form a browser encodes from fields with distinct names, within
  the parser's limits, is what the urlencoded parser hands to the routes: exactly
  those fields, in order, each value a string.
\<close>

theorem parse_body_form_roundtrip:
  assumes "distinct (map fst kvs)" and "length (form_encode kvs) \<le> body_limit" and "length kvs \<le> 1000"
  shows "parse_body (FormBody (form_encode kvs)) = Inr (JObj (map (\<lambda>(k, v). (k, JStr v)) kvs))"
  using assms count_amp_form_encode [of kvs] qs_parse_form_encode [OF assms(1)] by simp

text \<open>
  C32 (functional). A review posted as a browser form, with distinct field names, no
  \<^verbatim>\<open>id\<close> and within the parser's limits, is inserted as its fields: the schema
  casts the string values (a numeric \<^verbatim>\<open>dealership\<close> string becomes a number) and
  the review gets the next id.
\<close>

theorem serve_form_insert:
  assumes "connected st" and "distinct (map fst kvs)" and "''id'' \<notin> fst ` set kvs"
    and "length (form_encode kvs) \<le> body_limit" and "length kvs \<le> 1000"
    and "\<bar>next_id_spec (reviews st)\<bar> < 2 ^ 53"
    and "cast_doc Reviews (review_of (next_id_spec (reviews st)) (map (\<lambda>(k, v). (k, JStr v)) kvs)) = Some d"
  shows "serve (HPost [''insert_review''] (FormBody (form_encode kvs))) st =
           (json_ok (JObj d), st\<lparr>reviews := reviews st @ [d]\<rparr>) \<and>
         obj_get d ''id'' = Some (JNum (next_id_spec (reviews st)))"
proof
  have "obj_get (map (\<lambda>(k, v). (k, JStr v)) kvs) ''id'' = None"
    using assms(3) by (induction kvs) (auto simp: obj_get_def)
  from cast_review_id [OF assms(7) review_of_id_absent [OF this]]
  show "obj_get d ''id'' = Some (JNum (next_id_spec (reviews st)))" .
  have "parse_body (FormBody (form_encode kvs)) = Inr (JObj (map (\<lambda>(k, v). (k, JStr v)) kvs))"
    using assms(4,5) count_amp_form_encode [of kvs] qs_parse_form_encode [OF assms(2)] by simp
  from serve_post_body [OF this] show "serve (HPost [''insert_review''] (FormBody (form_encode kvs))) st =
      (json_ok (JObj d), st\<lparr>reviews := reviews st @ [d]\<rparr>)"
    using insert_review_exact [OF assms(1,6,7)] by (simp add: seg_eq_def)
qed

text \<open>
  C33 (bounds). The address the server binds: port 3030 when \<^verbatim>\<open>PORT\<close> is unset
  or empty; a decimal \<^verbatim>\<open>PORT\<close> is that TCP port when it is at most 65535, and
  above it \<^verbatim>\<open>listen\<close> throws; a non-blank \<^verbatim>\<open>PORT\<close> without a decimal digit
  (other than \<^verbatim>\<open>Infinity\<close>) is taken as the path of a local socket.
\<close>

theorem listen_addr_port:
  "listen_addr (e(''PORT'' := None)) = Some (TcpPort 3030) \<and>
   listen_addr (e(''PORT'' := Some [])) = Some (TcpPort 3030) \<and>
   listen_addr (e(''PORT'' := Some (nat_to_dec n))) = Some (if n \<le> 65535 then TcpPort n else BadPort) \<and>
   (list_all (\<lambda>c. digit_val 10 c = None) (js_trim s) \<and> js_trim s \<noteq> [] \<and>
    unsigned_part (js_trim s) \<noteq> ''Infinity'' \<longrightarrow> listen_addr (e(''PORT'' := Some s)) = Some (PipePath s))"
proof (intro conjI impI)
  show "listen_addr (e(''PORT'' := None)) = Some (TcpPort 3030)"
    and "listen_addr (e(''PORT'' := Some [])) = Some (TcpPort 3030)"
    by (simp_all add: listen_addr_def port_def env_val_def js_or_def)
  have "js_trim (nat_to_dec n) \<noteq> []" by simp
  moreover have "to_double (int n) \<le> 65535 \<longleftrightarrow> n \<le> 65535" using to_double_nat_le [of 65535 n] by simp
  moreover have "0 \<le> to_double (int n)" by (simp add: to_double_nat)
  moreover have "n \<le> 65535 \<Longrightarrow> to_double (int n) = int n" by (simp add: to_double_nat)
  ultimately show "listen_addr (e(''PORT'' := Some (nat_to_dec n))) = Some (if n \<le> 65535 then TcpPort n else BadPort)"
    by (auto simp add: listen_addr_def port_def env_val_def js_or_def js_string_to_int_nat_to_dec
        simp del: nat_to_dec.simps)
next
  assume h: "list_all (\<lambda>c. digit_val 10 c = None) (js_trim s) \<and> js_trim s \<noteq> [] \<and>
    unsigned_part (js_trim s) \<noteq> ''Infinity''"
  then have "s \<noteq> []" by (auto simp: js_trim_def)
  then show "listen_addr (e(''PORT'' := Some s)) = Some (PipePath s)"
    using h digitless_to_int [of s] digitless_not_numeric [of "js_trim s"]
    by (simp add: listen_addr_def port_def env_val_def js_or_def)
qed

text \<open>
  C34 (functional). A \<^verbatim>\<open>POST /insert_review\<close> whose body no parser takes (no
  body, or another content type) inserts a review holding nothing but the next id.
\<close>

theorem serve_no_body_inserts_id_only:
  assumes "connected st" and "\<bar>next_id_spec (reviews st)\<bar> < 2 ^ 53"
  shows "serve (HPost [''insert_review''] NoBody) st =
           (json_ok (JObj [(''id'', JNum (next_id_spec (reviews st)))]),
            st\<lparr>reviews := reviews st @ [[(''id'', JNum (next_id_spec (reviews st)))]]\<rparr>)"
proof -
  have "cast_doc Reviews (review_of (next_id_spec (reviews st)) []) = Some [(''id'', JNum (next_id_spec (reviews st)))]"
    by (simp add: review_of_def cast_doc_def cast_field_def number_fields_def)
  then show ?thesis using insert_review_exact [OF assms] by (simp add: seg_eq_def)
qed

text \<open>
  C35 (safety). Across the whole stack, a request that changes the store is a
  \<^verbatim>\<open>POST\<close> to \<^verbatim>\<open>/insert_review\<close> (in any letter case), and it appends exactly
  one review and changes nothing else.
\<close>

theorem serve_only_insert_writes:
  assumes "snd (serve r st) \<noteq> st"
  shows "\<exists>a c d. r = HPost [a] c \<and> seg_eq ''insert_review'' a \<and>
           snd (serve r st) = st\<lparr>reviews := reviews st @ [d]\<rparr>"
proof (cases r)
  case (HPost ps c)
  show ?thesis
  proof (cases "parse_body c")
    case (Inr v)
    then have eq: "snd (serve r st) = snd (handle (POST ps (spread_source v)) st)" using HPost by simp
    then obtain a where a: "ps = [a]" "seg_eq ''insert_review'' a"
      using assms handle_POST_writes by metis
    from handle_store [of "POST ps (spread_source v)" st] assms eq
    obtain data d where "snd (serve r st) = st\<lparr>reviews := reviews st @ [d]\<rparr>" by auto
    with HPost a show ?thesis by blast
  qed (use assms HPost in simp)
qed (use assms handle_GET_store in simp_all)

end
