(* ===== verification/Server.thy ===== *)
theory Server
  imports Router Seeder Http "HOL-Library.Sublist"
begin

text \<open>
  The running process of \<^verbatim>\<open>src/app.js\<close> as a state machine. Node runs one callback
  at a time, and each \<^verbatim>\<open>await\<close> lets any other ready callback run before the awaiting
  one resumes; so the steps of the machine are the stretches of code between awaits,
  and which one runs next is not determined. The seeding block moves one phase per
  step (\<open>seed_step\<close>, lines 51--69); the connection settles once (open or failed) and
  may later drop and come back; an HTTP request first passes the middleware
  (\<open>middleware\<close>: \<^verbatim>\<open>cors()\<close> and the body parsers, which touch no state), which
  either answers it at once or hands a request to the router; a read request runs its
  handler in one step (its one \<^verbatim>\<open>await\<close> is the query); \<^verbatim>\<open>POST /insert_review\<close> takes two steps: the
  sorted read that computes \<^verbatim>\<open>new_id\<close> (lines 125--126) and, later, the
  \<^verbatim>\<open>save()\<close> and the response (lines 127--129). The requests in flight between
  the two are \<open>pending\<close>. The responses sent are recorded in order.
  The guard of the seeding block runs synchronously at start-up, before the server
  listens, so the machine starts in the phase \<open>seed_start\<close> gives.
\<close>

record sys =
  db :: store
  settled :: bool
  phase :: seed_phase
  pending :: "(obj \<times> int) list"
  sent :: "response list"

text \<open>A request the router answers in one step: anything but \<^verbatim>\<open>POST /insert_review\<close>.\<close>

fun is_insert :: "request \<Rightarrow> bool" where
  "is_insert (POST [a] data) = seg_eq ''insert_review'' a"
| "is_insert _ = False"

definition init_sys :: "loaded \<Rightarrow> store \<Rightarrow> sys" where
  "init_sys ld st0 =
     \<lparr>db = st0\<lparr>connected := False\<rparr>, settled = False, phase = seed_start ld, pending = [], sent = []\<rparr>"

definition insert_error :: response where
  "insert_error = json_status 500 ''error'' ''Error inserting review''"

text \<open>The first half of \<^verbatim>\<open>insert_review\<close>: the sorted read and \<^verbatim>\<open>new_id\<close>.\<close>

definition insert_begin :: "obj \<Rightarrow> sys \<Rightarrow> sys" where
  "insert_begin data s =
     (case find_sorted_desc Reviews (db s) of
        Inl _ \<Rightarrow> s\<lparr>sent := sent s @ [insert_error]\<rparr>
      | Inr documents \<Rightarrow> s\<lparr>pending := pending s @ [(data, js_add (first_id documents) 1)]\<rparr>)"

text \<open>The second half: build the review with the id read earlier, save it, respond.\<close>

definition insert_commit :: "obj \<Rightarrow> int \<Rightarrow> sys \<Rightarrow> sys" where
  "insert_commit data new_id s =
     (case save Reviews (review_of new_id data) (db s) of
        Inl _ \<Rightarrow> s\<lparr>sent := sent s @ [insert_error]\<rparr>
      | Inr (savedReview, st') \<Rightarrow> s\<lparr>db := st', sent := sent s @ [json_ok (JObj savedReview)]\<rparr>)"

inductive server_step :: "loaded \<Rightarrow> sys \<Rightarrow> sys \<Rightarrow> bool" for ld where
  seed: "\<not> seed_final (phase s) \<Longrightarrow> (phase s = AwaitConnection \<longrightarrow> settled s) \<Longrightarrow>
    server_step ld s (s\<lparr>phase := fst (seed_step ld (phase s) (db s)),
                       db := snd (seed_step ld (phase s) (db s))\<rparr>)"
| conn_open: "\<not> settled s \<Longrightarrow>
    server_step ld s (s\<lparr>db := (db s)\<lparr>connected := True\<rparr>, settled := True\<rparr>)"
| conn_fail: "\<not> settled s \<Longrightarrow> server_step ld s (s\<lparr>settled := True\<rparr>)"
| conn_drop: "settled s \<Longrightarrow> server_step ld s (s\<lparr>db := (db s)\<lparr>connected := False\<rparr>\<rparr>)"
| conn_back: "settled s \<Longrightarrow> server_step ld s (s\<lparr>db := (db s)\<lparr>connected := True\<rparr>\<rparr>)"
| respond: "middleware rq = Inl resp \<Longrightarrow> server_step ld s (s\<lparr>sent := sent s @ [resp]\<rparr>)"
| request: "middleware rq = Inr r \<Longrightarrow> \<not> is_insert r \<Longrightarrow>
    server_step ld s (s\<lparr>sent := sent s @ [fst (handle r (db s))]\<rparr>)"
| begin_insert: "middleware rq = Inr (POST [a] data) \<Longrightarrow> seg_eq ''insert_review'' a \<Longrightarrow>
    server_step ld s (insert_begin data s)"
| commit_insert: "pending s = xs @ (data, new_id) # ys \<Longrightarrow>
    server_step ld s (insert_commit data new_id (s\<lparr>pending := xs @ ys\<rparr>))"

text \<open>The states a run reaches from a store \<open>st0\<close> left by an earlier run.\<close>

inductive reach :: "loaded \<Rightarrow> store \<Rightarrow> sys \<Rightarrow> bool" for ld st0 where
  start: "reach ld st0 (init_sys ld st0)"
| step: "reach ld st0 s \<Longrightarrow> server_step ld s t \<Longrightarrow> reach ld st0 t"

text \<open>Requests served one after another by a single client (no interleaving).\<close>

fun run_requests :: "request list \<Rightarrow> store \<Rightarrow> response list \<times> store" where
  "run_requests [] st = ([], st)"
| "run_requests (r # rs) st =
     (let (resp, st') = handle r st; (resps, st'') = run_requests rs st' in (resp # resps, st''))"

text \<open>The ids the reviews carry, and their uniqueness.\<close>

definition review_ids :: "store \<Rightarrow> int list" where
  "review_ids st = List.map_filter id_key (reviews st)"

text \<open>The request bodies that carry no \<^verbatim>\<open>id\<close> of their own.\<close>

fun no_client_id :: "request \<Rightarrow> bool" where
  "no_client_id (POST ps data) = (obj_get data ''id'' = None)"
| "no_client_id (GET ps) = True"

subsection \<open>What the seeding leaves in the store while requests run\<close>

definition seed_reviews :: "loaded \<Rightarrow> obj list option" where
  "seed_reviews ld = cast_many Reviews (seed_items ''reviews'' (reviews_data ld))"

definition seed_dealers :: "loaded \<Rightarrow> obj list option" where
  "seed_dealers ld = cast_many Dealerships (seed_items ''dealerships'' (dealerships_data ld))"

text \<open>
  Per phase of the seeder, what the collections hold whatever requests ran meanwhile:
  before the deletes, what the earlier run left (the reviews possibly extended);
  between the deletes and the inserts, no dealerships; after the reviews insert,
  the seed reviews as one contiguous block.
\<close>

fun seed_inv :: "loaded \<Rightarrow> store \<Rightarrow> seed_phase \<Rightarrow> store \<Rightarrow> bool" where
  "seed_inv ld st0 AwaitConnection st = (dealerships st = dealerships st0 \<and> prefix (reviews st0) (reviews st))"
| "seed_inv ld st0 DeleteReviews st = (dealerships st = dealerships st0 \<and> prefix (reviews st0) (reviews st))"
| "seed_inv ld st0 SeedSkipped st = (dealerships st = dealerships st0 \<and> prefix (reviews st0) (reviews st))"
| "seed_inv ld st0 DeleteDealers st = (dealerships st = dealerships st0)"
| "seed_inv ld st0 InsertReviews st = (dealerships st = [])"
| "seed_inv ld st0 InsertDealers st =
     (dealerships st = [] \<and> (case seed_reviews ld of Some rs \<Rightarrow> sublist rs (reviews st) | None \<Rightarrow> False))"
| "seed_inv ld st0 Seeded st =
     (seed_dealers ld = Some (dealerships st) \<and>
      (case seed_reviews ld of Some rs \<Rightarrow> sublist rs (reviews st) | None \<Rightarrow> False))"
| "seed_inv ld st0 SeedFailed st = True"

inductive_cases server_stepE: "server_step ld s t"

subsection \<open>Lemmas: the steps\<close>

lemma handle_read_only: "\<not> is_insert r \<Longrightarrow> snd (handle r st) = st"
  by (cases "(r, st)" rule: handle.cases) auto

lemma store_ok_connected [simp]: "store_ok (st\<lparr>connected := b\<rparr>) = store_ok st"
  by (simp add: store_ok_def)

lemma insert_begin_frame [simp]:
  "db (insert_begin data s) = db s" "phase (insert_begin data s) = phase s"
  "settled (insert_begin data s) = settled s"
  by (simp_all add: insert_begin_def split: sum.split)

lemma insert_commit_cases:
  "insert_commit data n s = s\<lparr>sent := sent s @ [insert_error]\<rparr> \<or>
   (\<exists>d. cast_doc Reviews (review_of n data) = Some d \<and> connected (db s) \<and>
        insert_commit data n s =
          s\<lparr>db := (db s)\<lparr>reviews := reviews (db s) @ [d]\<rparr>, sent := sent s @ [json_ok (JObj d)]\<rparr>)"
  by (auto simp: insert_commit_def save_def split: option.splits)

lemma insert_many_Inr:
  "insert_many c v st = Inr st' \<longleftrightarrow>
   connected st \<and> (\<exists>ds. cast_many c v = Some ds \<and> st' = set_coll c (coll_docs c st @ ds) st)"
  by (auto simp: insert_many_def split: option.splits)

lemma delete_all_Inr: "delete_all c st = Inr st' \<longleftrightarrow> connected st \<and> st' = set_coll c [] st"
  by (auto simp: delete_all_def)

lemma server_step_cases_db:
  assumes "server_step ld s t"
  obtains (seed) "\<not> seed_final (phase s)" "phase t = fst (seed_step ld (phase s) (db s))"
      "db t = snd (seed_step ld (phase s) (db s))"
    | (conn) b where "phase t = phase s" "db t = (db s)\<lparr>connected := b\<rparr>"
    | (same) "phase t = phase s" "db t = db s"
    | (append) d data n where "phase t = phase s" "cast_doc Reviews (review_of n data) = Some d"
      "db t = (db s)\<lparr>reviews := reviews (db s) @ [d]\<rparr>"
  using assms
proof cases
  case (commit_insert xs data new_id ys)
  from insert_commit_cases [of data new_id "s\<lparr>pending := xs @ ys\<rparr>"] show ?thesis
    using commit_insert that by auto
qed (use that in \<open>simp_all add: sum.split_sel\<close>)

lemma server_step_store_ok:
  assumes "server_step ld s t" and "wf_jval (reviews_data ld)" and "wf_jval (dealerships_data ld)"
    and "store_ok (db s)"
  shows "store_ok (db t)"
  using assms(1)
proof (cases rule: server_step_cases_db)
  case seed
  then show ?thesis using seed_step_store_ok [OF assms(2-4)] by simp
next
  case (append d data n)
  then show ?thesis
    using store_ok_append(1) [OF assms(4), of "[d]"] cast_doc_ok [OF review_of_wf] by simp
qed (use assms(4) in simp_all)

lemma sublist_append_mono [intro]: "sublist xs ys \<Longrightarrow> sublist xs (ys @ zs)"
  unfolding sublist_def by (metis append.assoc)

lemma seed_inv_append:
  "seed_inv ld st0 ph st \<Longrightarrow> seed_inv ld st0 ph (st\<lparr>reviews := reviews st @ ds\<rparr>)"
  by (cases ph) (auto split: option.splits)

lemma seed_inv_connected [simp]: "seed_inv ld st0 ph (st\<lparr>connected := b\<rparr>) = seed_inv ld st0 ph st"
  by (cases ph) (simp_all split: option.split)

lemma seed_inv_step:
  "seed_inv ld st0 ph st \<Longrightarrow> \<not> seed_final ph \<Longrightarrow>
   seed_inv ld st0 (fst (seed_step ld ph st)) (snd (seed_step ld ph st))"
  by (cases ph)
    (auto simp: delete_all_Inr insert_many_Inr seed_reviews_def seed_dealers_def split: sum.split option.splits)

lemma server_step_seed_inv:
  assumes "server_step ld s t" and "seed_inv ld st0 (phase s) (db s)"
  shows "seed_inv ld st0 (phase t) (db t)"
  using assms(1)
proof (cases rule: server_step_cases_db)
  case seed
  then show ?thesis using seed_inv_step [OF assms(2)] by simp
next
  case (append d data n)
  then show ?thesis using seed_inv_append [OF assms(2), of "[d]"] by simp
qed (use assms(2) in simp_all)

lemma insert_commit_frame [simp]:
  "pending (insert_commit data n s) = pending s" "phase (insert_commit data n s) = phase s"
  "length (sent (insert_commit data n s)) = Suc (length (sent s))"
  by (simp_all add: insert_commit_def split: sum.split prod.split)

lemma reach_seed_inv: "reach ld st0 s \<Longrightarrow> seed_inv ld st0 (phase s) (db s)"
proof (induction rule: reach.induct)
  case start
  then show ?case by (simp add: init_sys_def seed_start_def)
next
  case (step s t)
  from step.hyps(2) step.IH show ?case by (rule server_step_seed_inv)
qed

subsection \<open>Lemmas: review ids under sequential requests\<close>

lemma next_id_fresh: "next_id_spec docs \<notin> set (List.map_filter id_key docs)"
proof (cases "List.map_filter id_key docs = []")
  case True
  then show ?thesis by (simp add: next_id_spec_def)
next
  case False
  let ?ids = "set (List.map_filter id_key docs)"
  have "Max ?ids + 1 \<in> ?ids \<Longrightarrow> Max ?ids + 1 \<le> Max ?ids" by (rule Max_ge) simp_all
  then show ?thesis using False by (auto simp: next_id_spec_def Let_def)
qed

lemma review_ids_snoc:
  "review_ids (st\<lparr>reviews := reviews st @ [d]\<rparr>) =
   review_ids st @ (case id_key d of Some n \<Rightarrow> [n] | None \<Rightarrow> [])"
  by (auto simp: review_ids_def List.map_filter_def split: option.split)

text \<open>
  Below \<open>2^53\<close> the addition is exact. \<open>k\<close> counts the insertions still to come:
  if every id is below \<open>2^53 - k\<close> in magnitude, the next id is exact and the ids stay
  below \<open>2^53 - (k - 1)\<close>.
\<close>

lemma next_id_bound:
  assumes "\<forall>i \<in> set (List.map_filter id_key docs). \<bar>i\<bar> + k < 2 ^ 53" and "k < 2 ^ 53" and "1 \<le> k"
  shows "\<bar>next_id_spec docs\<bar> + (k - 1) < 2 ^ 53"
proof (cases "List.map_filter id_key docs = []")
  case True
  with assms(2) show ?thesis by (simp add: next_id_spec_def)
next
  case False
  let ?m = "Max (set (List.map_filter id_key docs))"
  have "\<bar>?m\<bar> + k < 2 ^ 53" using False assms(1) by simp
  moreover have "\<bar>?m + 1\<bar> \<le> \<bar>?m\<bar> + 1" by simp
  ultimately show ?thesis using False by (simp add: next_id_spec_def)
qed

lemma insert_review_ids_bounded:
  assumes "distinct (review_ids st)" and "obj_get data ''id'' = None"
    and "\<forall>i \<in> set (review_ids st). \<bar>i\<bar> + (k + 1) < 2 ^ 53" and "k + 1 < 2 ^ 53" and "0 \<le> k"
  shows "distinct (review_ids (snd (insert_review data st))) \<and>
         (\<forall>i \<in> set (review_ids (snd (insert_review data st))). \<bar>i\<bar> + k < 2 ^ 53)"
  using insert_review_store [of data st]
proof
  assume "\<exists>d. cast_doc Reviews (review_of (assigned_id (reviews st)) data) = Some d \<and>
        snd (insert_review data st) = st\<lparr>reviews := reviews st @ [d]\<rparr>"
  then obtain d where d: "cast_doc Reviews (review_of (assigned_id (reviews st)) data) = Some d"
    and st': "snd (insert_review data st) = st\<lparr>reviews := reviews st @ [d]\<rparr>" by blast
  have nb: "\<bar>next_id_spec (reviews st)\<bar> + k < 2 ^ 53"
    using next_id_bound [of "reviews st" "k + 1"] assms(3-5) by (simp add: review_ids_def)
  then have "assigned_id (reviews st) = next_id_spec (reviews st)" using assms(5)
    by (intro assigned_id_exact) simp
  then have "id_key d = Some (next_id_spec (reviews st))"
    using cast_review_id [OF d review_of_id_absent [OF assms(2)]] by (simp add: id_key_def)
  moreover have "next_id_spec (reviews st) \<notin> set (review_ids st)"
    using next_id_fresh by (simp add: review_ids_def)
  ultimately show ?thesis using assms(1,3) nb by (auto simp: st' review_ids_snoc)
qed (use assms(1,3) in auto)

lemma handle_ids_bounded:
  assumes "distinct (review_ids st)" and "no_client_id r"
    and "\<forall>i \<in> set (review_ids st). \<bar>i\<bar> + (k + 1) < 2 ^ 53" and "k + 1 < 2 ^ 53" and "0 \<le> k"
  shows "distinct (review_ids (snd (handle r st))) \<and>
         (\<forall>i \<in> set (review_ids (snd (handle r st))). \<bar>i\<bar> + k < 2 ^ 53)"
proof -
  have old: "\<forall>i \<in> set (review_ids st). \<bar>i\<bar> + k < 2 ^ 53" using assms(3) by fastforce
  show ?thesis
  proof (cases r)
    case (GET ps)
    then show ?thesis using assms(1) old by (simp add: handle_GET_store)
  next
    case (POST ps data)
    then show ?thesis
      using handle_POST_store [of ps data st] insert_review_ids_bounded [OF assms(1) _ assms(3-5), of data]
        assms(1,2) old
      by auto
  qed
qed

lemma run_requests_store [simp]:
  "snd (run_requests (r # rs) st) = snd (run_requests rs (snd (handle r st)))"
  by (simp split: prod.split)

subsection \<open>Lemmas: progress of the seeder\<close>

lemma seeder_finishes_settled:
  "settled s \<Longrightarrow> \<exists>t. (server_step ld)\<^sup>*\<^sup>* s t \<and> seed_final (phase t)"
proof (induction "phase_rank (phase s)" arbitrary: s rule: less_induct)
  case less
  show ?case
  proof (cases "seed_final (phase s)")
    case True
    then show ?thesis by blast
  next
    case False
    define t where "t = s\<lparr>phase := fst (seed_step ld (phase s) (db s)), db := snd (seed_step ld (phase s) (db s))\<rparr>"
    have step: "server_step ld s t"
      unfolding t_def using False less.prems by (intro server_step.seed) simp_all
    have "phase_rank (phase t) < phase_rank (phase s)"
      using seed_step_rank [OF False] by (simp add: t_def)
    moreover have "settled t" using less.prems by (simp add: t_def)
    ultimately obtain u where "(server_step ld)\<^sup>*\<^sup>* t u" and "seed_final (phase u)"
      using less.hyps by blast
    then show ?thesis using step by (meson converse_rtranclp_into_rtranclp)
  qed
qed

lemma reach_steps: "(server_step ld)\<^sup>*\<^sup>* s t \<Longrightarrow> reach ld st0 s \<Longrightarrow> reach ld st0 t"
  by (induction rule: rtranclp_induct) (auto intro: reach.step)

text \<open>Running the seeder to its end with no request in between is one schedule.\<close>

lemma seed_run_steps:
  "settled s \<Longrightarrow> (server_step ld)\<^sup>*\<^sup>* s
     (s\<lparr>phase := fst (seed_run ld (phase s) (db s)), db := snd (seed_run ld (phase s) (db s))\<rparr>)"
proof (induction "phase_rank (phase s)" arbitrary: s rule: less_induct)
  case less
  show ?case
  proof (cases "seed_final (phase s)")
    case True
    then show ?thesis by (simp add: seed_run_final)
  next
    case False
    define t where "t = s\<lparr>phase := fst (seed_step ld (phase s) (db s)), db := snd (seed_step ld (phase s) (db s))\<rparr>"
    have step: "server_step ld s t"
      unfolding t_def using False less.prems by (intro server_step.seed) simp_all
    have "phase_rank (phase t) < phase_rank (phase s)"
      using seed_step_rank [OF False] by (simp add: t_def)
    moreover have "settled t" using less.prems by (simp add: t_def)
    ultimately have "(server_step ld)\<^sup>*\<^sup>* t
        (t\<lparr>phase := fst (seed_run ld (phase t) (db t)), db := snd (seed_run ld (phase t) (db t))\<rparr>)"
      using less.hyps by blast
    moreover have "t\<lparr>phase := fst (seed_run ld (phase t) (db t)), db := snd (seed_run ld (phase t) (db t))\<rparr> =
        s\<lparr>phase := fst (seed_run ld (phase s) (db s)), db := snd (seed_run ld (phase s) (db s))\<rparr>"
      using seed_run_step [OF False] by (simp add: t_def)
    ultimately show ?thesis using step by (metis converse_rtranclp_into_rtranclp)
  qed
qed

subsection \<open>Lemmas: the shape of the responses sent\<close>

lemma insert_error_shape [simp]: "resp_shape insert_error"
  by (simp add: resp_shape_def insert_error_def json_status_def)

lemma json_ok_obj_shape [simp]: "resp_shape (json_ok (JObj d))"
  using shape_json_ok_obj [of d] by (simp add: resp_shape_def json_ok_def)

lemma server_step_shape:
  assumes "server_step ld s t" and "list_all resp_shape (sent s)"
  shows "list_all resp_shape (sent t)"
  using assms(1)
proof cases
  case (respond rq resp)
  then show ?thesis using assms(2) middleware_shape by simp
next
  case (request rq r)
  then show ?thesis using assms(2) handle_shape by simp
next
  case (begin_insert rq a data)
  then show ?thesis using assms(2) by (simp add: insert_begin_def split: sum.split)
next
  case (commit_insert xs data new_id ys)
  then show ?thesis using assms(2) by (simp add: insert_commit_def split: sum.split prod.split)
qed (use assms(2) in simp_all)

subsection \<open>Lemmas: serving one request at a time is a schedule\<close>

text \<open>
  As the small-step semantics of a command simulates its big-step evaluation, the
  steps of the process simulate one call of \<open>handle\<close>: a read route is one step, and
  an insertion is its read followed at once by its save (or the read alone, when it
  fails). Other requests in flight stay pending, untouched.
\<close>

lemma insert_step_schedule:
  assumes "seg_eq ''insert_review'' a"
  shows "(server_step ld)\<^sup>*\<^sup>* s (s\<lparr>db := snd (insert_review data (db s)),
                                    sent := sent s @ [fst (insert_review data (db s))]\<rparr>)"
proof (cases "connected (db s)")
  case False
  then have "server_step ld s (s\<lparr>db := snd (insert_review data (db s)),
      sent := sent s @ [fst (insert_review data (db s))]\<rparr>)"
    using server_step.begin_insert [OF middleware_json assms, of ld s]
    by (simp add: insert_begin_def find_sorted_desc_def insert_review_disconnected insert_error_def)
  then show ?thesis by (rule r_into_rtranclp)
next
  case True
  let ?n = "assigned_id (reviews (db s))"
  let ?s1 = "s\<lparr>pending := pending s @ [(data, ?n)]\<rparr>"
  have b: "server_step ld s ?s1"
    using server_step.begin_insert [OF middleware_json assms, of ld s] True
    by (simp add: insert_begin_def find_sorted_desc_Reviews assigned_id_def)
  have "server_step ld ?s1 (insert_commit data ?n (?s1\<lparr>pending := pending s @ []\<rparr>))"
    by (rule server_step.commit_insert) simp
  moreover have "insert_commit data ?n (?s1\<lparr>pending := pending s @ []\<rparr>) =
      s\<lparr>db := snd (insert_review data (db s)), sent := sent s @ [fst (insert_review data (db s))]\<rparr>"
    using True by (simp add: insert_commit_def insert_review_connected insert_error_def
        split: sum.split prod.split)
  ultimately show ?thesis using b by (metis converse_rtranclp_into_rtranclp r_into_rtranclp)
qed

lemma handle_step_schedule:
  "(server_step ld)\<^sup>*\<^sup>* s (s\<lparr>db := snd (handle r (db s)), sent := sent s @ [fst (handle r (db s))]\<rparr>)"
proof (cases "is_insert r")
  case False
  obtain rq where "middleware rq = Inr r" using middleware_onto by blast
  from this False have "server_step ld s (s\<lparr>sent := sent s @ [fst (handle r (db s))]\<rparr>)"
    by (rule server_step.request)
  then show ?thesis using handle_read_only [OF False, of "db s"] by simp
next
  case True
  then obtain a data where r: "r = POST [a] data" and a: "seg_eq ''insert_review'' a"
    by (cases r rule: is_insert.cases) auto
  then show ?thesis using insert_step_schedule [OF a, of ld s data] by simp
qed

subsection \<open>Lemmas: the two halves of an insertion on a connected store\<close>

lemma begin_step_connected:
  assumes "connected (db s)"
  shows "server_step ld s (s\<lparr>pending := pending s @ [(b, assigned_id (reviews (db s)))]\<rparr>)"
proof -
  have "server_step ld s (insert_begin b s)"
    by (rule server_step.begin_insert [OF middleware_json, where a = "''insert_review''"])
      (simp add: seg_eq_def)
  then show ?thesis using assms by (simp add: insert_begin_def find_sorted_desc_Reviews assigned_id_def)
qed

lemma commit_step_saved:
  assumes "pending s = xs @ (b, n) # ys" and "connected (db s)" and "cast_doc Reviews (review_of n b) = Some r"
  shows "server_step ld s (s\<lparr>pending := xs @ ys, db := (db s)\<lparr>reviews := reviews (db s) @ [r]\<rparr>,
                              sent := sent s @ [json_ok (JObj r)]\<rparr>)"
  using server_step.commit_insert [OF assms(1), of ld] assms(2,3)
  by (simp add: insert_commit_def save_Reviews)

lemma seed_run_before_delete:
  assumes "ph = AwaitConnection \<or> ph = DeleteReviews" and "connected st"
    and "seed_reviews ld = Some rs" and "seed_dealers ld = Some ds"
  shows "seed_run ld ph st = (Seeded, st\<lparr>reviews := rs, dealerships := ds\<rparr>)"
proof -
  have "seed_run ld DeleteReviews st = seed_run ld InsertReviews (st\<lparr>reviews := [], dealerships := []\<rparr>)"
    using assms(2) by (simp add: seed_run_step delete_all_ok)
  then have "seed_run ld ph st = seed_run ld InsertReviews (st\<lparr>reviews := [], dealerships := []\<rparr>)"
    using assms(1,2) seed_run_connected by auto
  then show ?thesis using assms(2-4)
    by (simp add: seed_run_from_insert insert_many_ok seed_reviews_def seed_dealers_def)
qed

subsection \<open>Properties of the running process\<close>

text \<open>
  C18 (invariant). Whatever the interleaving of seeding, connection events and
  requests, every stored document keeps the schema's type invariant, provided the
  earlier store did and the seed files are well-formed JSON.
\<close>

theorem server_store_ok:
  assumes "reach ld st0 s" and "wf_jval (reviews_data ld)" and "wf_jval (dealerships_data ld)"
    and "store_ok st0"
  shows "store_ok (db s)"
  using assms(1)
proof (induction rule: reach.induct)
  case start
  then show ?case using assms(4) by (simp add: init_sys_def)
next
  case (step s t)
  then show ?case using server_step_store_ok assms(2,3) by blast
qed

text \<open>
  C19 (safety). What the seeder leaves, whatever requests ran before, during or after
  it: once it has seeded, the dealerships are exactly the seed dealerships and the
  seed reviews are stored as one contiguous block; when it skipped the seeding (a
  seed file missing or falsy), the dealerships stay those the earlier run left and
  the earlier reviews are kept as a prefix of the reviews.
\<close>

theorem server_seed_outcome:
  assumes "reach ld st0 s"
  shows "(phase s = Seeded \<longrightarrow> seed_dealers ld = Some (dealerships (db s)) \<and>
            (\<exists>rs. seed_reviews ld = Some rs \<and> sublist rs (reviews (db s)))) \<and>
         (phase s = SeedSkipped \<longrightarrow>
            dealerships (db s) = dealerships st0 \<and> prefix (reviews st0) (reviews (db s)))"
  using reach_seed_inv [OF assms] by (cases "phase s") (simp_all split: option.splits)

text \<open>
  C23 (invariant). Served one at a time, requests whose bodies carry no id keep the
  review ids pairwise distinct: each insertion takes the largest id plus one. The ids
  and their count must leave room below \<open>2^53\<close>, where the addition is exact (C29).
\<close>

theorem run_requests_ids_distinct:
  assumes "distinct (review_ids st)" and "list_all no_client_id rs"
    and "int (length rs) < 2 ^ 53" and "\<forall>i \<in> set (review_ids st). \<bar>i\<bar> + int (length rs) < 2 ^ 53"
  shows "distinct (review_ids (snd (run_requests rs st)))"
  using assms
proof (induction rs arbitrary: st)
  case Nil
  then show ?case by simp
next
  case (Cons r rs)
  then have h: "distinct (review_ids (snd (handle r st))) \<and>
      (\<forall>i \<in> set (review_ids (snd (handle r st))). \<bar>i\<bar> + int (length rs) < 2 ^ 53)"
    by (intro handle_ids_bounded) (simp_all add: add.assoc)
  moreover have "list_all no_client_id rs" and "int (length rs) < 2 ^ 53" using Cons.prems(2,3) by simp_all
  ultimately show ?case using Cons.IH by (simp del: run_requests.simps)
qed

text \<open>
  From every state of the process some run of steps brings the
  seeder to an end (seeded, failed or skipped): it never waits forever.
\<close>

lemma seeder_can_finish: "\<exists>t. (server_step ld)\<^sup>*\<^sup>* s t \<and> seed_final (phase t)"
proof (cases "settled s")
  case True
  then show ?thesis by (rule seeder_finishes_settled)
next
  case False
  then have step: "server_step ld s (s\<lparr>settled := True\<rparr>)" by (rule server_step.conn_fail)
  obtain u where "(server_step ld)\<^sup>*\<^sup>* (s\<lparr>settled := True\<rparr>) u" and "seed_final (phase u)"
    using seeder_finishes_settled [of "s\<lparr>settled := True\<rparr>"] by auto
  then show ?thesis using step by (meson converse_rtranclp_into_rtranclp)
qed

text \<open>
  C24 (liveness). An insertion in flight can always complete: some step takes it off
  the pending requests and sends exactly one response for it (the saved review or
  the error).
\<close>

theorem insert_progress:
  assumes "pending s \<noteq> []"
  shows "\<exists>t. server_step ld s t \<and> length (pending t) < length (pending s) \<and>
             length (sent t) = Suc (length (sent s))"
proof -
  obtain data n ps where p: "pending s = [] @ (data, n) # ps"
    using assms by (cases "pending s") auto
  have "server_step ld s (insert_commit data n (s\<lparr>pending := [] @ ps\<rparr>))"
    using p by (rule server_step.commit_insert)
  then show ?thesis using p by (intro exI [of _ "insert_commit data n (s\<lparr>pending := [] @ ps\<rparr>)"]) simp
qed

text \<open>
  The sequential model of the API, \<open>run_requests\<close> (each request
  served to completion before the next, as the Router properties assume), is one of
  the schedules of the running process: from any state, with any seeding phase and
  any insertions already in flight, the process can serve the same requests (each
  arriving as an HTTP request the middleware hands on) with the same responses, in
  the same order, and leave the same store.
\<close>

lemma run_requests_schedule:
  "(server_step ld)\<^sup>*\<^sup>* s (s\<lparr>db := snd (run_requests rs (db s)),
                                  sent := sent s @ fst (run_requests rs (db s))\<rparr>)"
proof (induction rs arbitrary: s)
  case Nil
  then show ?case by simp
next
  case (Cons r rs)
  let ?s1 = "s\<lparr>db := snd (handle r (db s)), sent := sent s @ [fst (handle r (db s))]\<rparr>"
  have "(server_step ld)\<^sup>*\<^sup>* s ?s1" by (rule handle_step_schedule)
  moreover have "(server_step ld)\<^sup>*\<^sup>* ?s1 (?s1\<lparr>db := snd (run_requests rs (db ?s1)),
      sent := sent ?s1 @ fst (run_requests rs (db ?s1))\<rparr>)" by (rule Cons.IH)
  ultimately show ?case by (simp add: split_def Let_def)
qed

text \<open>
  C30 (type). Every response the running process has sent, by the middleware, a read
  route or either half of an insertion, in any interleaving, has a status and a
  body of the shape the client may expect: text for 204, 400 and 413, and for the
  router's statuses the shape \<open>body_shape\<close> gives (text or documents for 200,
  text or \<^verbatim>\<open>{message}\<close> for 404, \<^verbatim>\<open>{error}\<close> for 500).
\<close>

theorem server_sent_shape:
  assumes "reach ld st0 s"
  shows "list_all resp_shape (sent s)"
  using assms
proof (induction rule: reach.induct)
  case start
  then show ?case by (simp add: init_sys_def)
next
  case (step s t)
  from step.hyps(2) step.IH show ?case by (rule server_step_shape)
qed

text \<open>
  C21 (safety). The id assignment is not atomic. From any state with the store
  connected, two \<^verbatim>\<open>POST /insert_review\<close> without an id whose sorted reads both run
  before either save are both answered 200 with the same id, the id computed from the
  store before them, and the store then holds two reviews with that id.
\<close>

theorem insert_race_duplicate_ids:
  assumes "connected (db s)"
    and "obj_get b1 ''id'' = None" and "obj_get b2 ''id'' = None"
    and "cast_doc Reviews (review_of (assigned_id (reviews (db s))) b1) = Some r1"
    and "cast_doc Reviews (review_of (assigned_id (reviews (db s))) b2) = Some r2"
  shows "\<exists>t. (server_step ld)\<^sup>*\<^sup>* s t \<and>
           sent t = sent s @ [json_ok (JObj r1), json_ok (JObj r2)] \<and>
           reviews (db t) = reviews (db s) @ [r1, r2] \<and>
           review_ids (db t) = review_ids (db s) @ [assigned_id (reviews (db s)), assigned_id (reviews (db s))]"
proof -
  let ?n = "assigned_id (reviews (db s))"
  let ?s1 = "s\<lparr>pending := pending s @ [(b1, ?n)]\<rparr>"
  let ?s2 = "s\<lparr>pending := pending s @ [(b1, ?n), (b2, ?n)]\<rparr>"
  let ?s3 = "?s2\<lparr>pending := pending s @ [(b2, ?n)], db := (db s)\<lparr>reviews := reviews (db s) @ [r1]\<rparr>,
                sent := sent s @ [json_ok (JObj r1)]\<rparr>"
  let ?s4 = "?s3\<lparr>pending := pending s, db := (db s)\<lparr>reviews := reviews (db s) @ [r1, r2]\<rparr>,
                sent := sent s @ [json_ok (JObj r1), json_ok (JObj r2)]\<rparr>"
  have 1: "server_step ld s ?s1" using begin_step_connected [OF assms(1), of ld b1] by simp
  have 2: "server_step ld ?s1 ?s2" using begin_step_connected [of ?s1 ld b2] assms(1) by simp
  have 3: "server_step ld ?s2 ?s3"
    using commit_step_saved [of ?s2 "pending s" b1 ?n "[(b2, ?n)]" r1 ld] assms(1,4) by simp
  have 4: "server_step ld ?s3 ?s4"
    using commit_step_saved [of ?s3 "pending s" b2 ?n "[]" r2 ld] assms(1,5) by simp
  have "obj_get r1 ''id'' = Some (JNum ?n)" and "obj_get r2 ''id'' = Some (JNum ?n)"
    using cast_review_id [OF assms(4) review_of_id_absent [OF assms(2)]]
      cast_review_id [OF assms(5) review_of_id_absent [OF assms(3)]] by simp_all
  then have "review_ids (db ?s4) = review_ids (db s) @ [?n, ?n]"
    by (simp add: review_ids_def List.map_filter_def id_key_def)
  moreover have "(server_step ld)\<^sup>*\<^sup>* s ?s4" using 1 2 3 4 by simp
  ultimately show ?thesis by (intro exI [of _ ?s4]) simp
qed

text \<open>
  C22 (safety). The server takes requests before the seeder has emptied the
  collections. From any state where the connection is open and the seeder has not
  yet deleted the reviews, a posted review can be saved and acknowledged with a 200
  and the seeding then run to its end: the reviews are then exactly the seed
  reviews, so the acknowledged review is gone (unless it is itself a seed record).
\<close>

theorem insert_lost_by_seeding:
  assumes "settled s" and "connected (db s)" and "phase s = AwaitConnection \<or> phase s = DeleteReviews"
    and "seed_reviews ld = Some rs" and "seed_dealers ld = Some ds"
    and "cast_doc Reviews (review_of (assigned_id (reviews (db s))) b) = Some d"
  shows "\<exists>t. (server_step ld)\<^sup>*\<^sup>* s t \<and> phase t = Seeded \<and>
           sent t = sent s @ [json_ok (JObj d)] \<and> reviews (db t) = rs \<and> dealerships (db t) = ds"
proof -
  let ?s1 = "s\<lparr>db := (db s)\<lparr>reviews := reviews (db s) @ [d]\<rparr>, sent := sent s @ [json_ok (JObj d)]\<rparr>"
  have "insert_review b (db s) = (json_ok (JObj d), (db s)\<lparr>reviews := reviews (db s) @ [d]\<rparr>)"
    using assms(2,6) by (simp add: insert_review_connected save_Reviews)
  then have 1: "(server_step ld)\<^sup>*\<^sup>* s ?s1"
    using insert_step_schedule [of "''insert_review''" ld s b] by (simp add: seg_eq_def)
  have 2: "(server_step ld)\<^sup>*\<^sup>* ?s1
      (?s1\<lparr>phase := fst (seed_run ld (phase ?s1) (db ?s1)), db := snd (seed_run ld (phase ?s1) (db ?s1))\<rparr>)"
    using assms(1) by (intro seed_run_steps) simp
  let ?t = "?s1\<lparr>phase := Seeded, db := (db ?s1)\<lparr>reviews := rs, dealerships := ds\<rparr>\<rparr>"
  have "seed_run ld (phase ?s1) (db ?s1) = (Seeded, (db ?s1)\<lparr>reviews := rs, dealerships := ds\<rparr>)"
    using assms(2-5) by (intro seed_run_before_delete) simp_all
  with 2 have "(server_step ld)\<^sup>*\<^sup>* ?s1 ?t" by simp
  with 1 have "(server_step ld)\<^sup>*\<^sup>* s ?t" by (rule rtranclp_trans)
  then show ?thesis by (intro exI [of _ ?t]) simp
qed

end
