(* ===== verification/Frontend.thy ===== *)
theory Frontend
  imports Router
begin

text \<open>
  The React route table of \<^verbatim>\<open>src/server/frontend/src/App.js\<close> (lines 5--15): two
  routes in a \<^verbatim>\<open>Routes\<close> element, \<^verbatim>\<open>/login\<close> to the login panel and
  \<^verbatim>\<open>/register\<close> to the registration page. React Router (v6) compiles a static
  route path \<^verbatim>\<open>/login\<close> to the expression \<^verbatim>\<open>^/login\/*$\<close>, case-insensitive
  unless the route is \<^verbatim>\<open>caseSensitive\<close>: the location must be the path itself,
  letter case aside, followed by any number of slashes; a doubled leading slash or an
  extra segment does not match. The first matching route renders, and nothing renders
  when none matches. The location is taken as already percent-decoded; the pages
  themselves are not among the sources and are opaque here.
\<close>

datatype page = LoginPanel | Register

definition app_routes :: "(string \<times> page) list" where
  "app_routes = [(''/login'', LoginPanel), (''/register'', Register)]"

text \<open>\<^verbatim>\<open>^path\/*$\<close> with the \<^verbatim>\<open>i\<close> flag (ASCII letters fold to lower case).\<close>

definition route_match :: "string \<Rightarrow> string \<Rightarrow> bool" where
  "route_match path p \<longleftrightarrow>
     seg_eq path (take (length path) p) \<and> list_all (\<lambda>c. c = CHR ''/'') (drop (length path) p)"

fun match_routes :: "(string \<times> page) list \<Rightarrow> string \<Rightarrow> page option" where
  "match_routes [] p = None"
| "match_routes ((path, pg) # rs) p = (if route_match path p then Some pg else match_routes rs p)"

definition app_render :: "string \<Rightarrow> page option" where
  "app_render p = match_routes app_routes p"

subsection \<open>Lemmas: matching a location\<close>

lemma lower_char_slash: "lower_char c = CHR ''/'' \<longleftrightarrow> c = CHR ''/''"
proof
  assume l: "lower_char c = CHR ''/''"
  show "c = CHR ''/''"
  proof (cases "65 \<le> (of_char c :: nat) \<and> (of_char c :: nat) \<le> 90")
    case True
    then have "lower_char c = char_of (of_char c + 32 :: nat)" by (simp add: lower_char_def)
    then have "of_char (lower_char c) = ((of_char c + 32) mod 256 :: nat)" by (simp add: of_char_of)
    with l True show ?thesis by simp
  next
    case False
    then have "lower_char c = c" by (auto simp: lower_char_def Let_def)
    with l show ?thesis by simp
  qed
qed (simp add: lower_char_def)

lemma lower_char_slash_id [simp]: "lower_char CHR ''/'' = CHR ''/''"
  by (simp add: lower_char_slash)

lemma slash_lower_char: "CHR ''/'' = lower_char c \<longleftrightarrow> c = CHR ''/''"
  using lower_char_slash by metis

lemma map_lower_slashes: "map lower_char xs = replicate k CHR ''/'' \<longleftrightarrow> xs = replicate k CHR ''/''"
proof (induction xs arbitrary: k)
  case (Cons x xs)
  then show ?case by (cases k) (auto simp: lower_char_slash)
qed simp

lemma all_slashes: "list_all (\<lambda>c. c = CHR ''/'') xs \<longleftrightarrow> xs = replicate (length xs) CHR ''/''"
  by (induction xs) auto

text \<open>The matcher as an equation on the lower-cased location.\<close>

lemma route_match_lower:
  "route_match path p \<longleftrightarrow> (\<exists>k. map lower_char p = map lower_char path @ replicate k CHR ''/'')"
proof
  assume "route_match path p"
  then have t: "map lower_char (take (length path) p) = map lower_char path"
    and d: "drop (length path) p = replicate (length (drop (length path) p)) CHR ''/''"
    by (simp_all add: route_match_def seg_eq_def all_slashes)
  have "map lower_char p = map lower_char (take (length path) p) @ map lower_char (drop (length path) p)"
    by (simp flip: map_append)
  also have "\<dots> = map lower_char path @ replicate (length (drop (length path) p)) CHR ''/''"
    using t d map_lower_slashes by metis
  finally show "\<exists>k. map lower_char p = map lower_char path @ replicate k CHR ''/''" ..
next
  assume "\<exists>k. map lower_char p = map lower_char path @ replicate k CHR ''/''"
  then obtain k where k: "map lower_char p = map lower_char path @ replicate k CHR ''/''" ..
  have "map lower_char (take (length path) p) = take (length path) (map lower_char p)" by (simp add: take_map)
  also have "\<dots> = map lower_char path" using k by simp
  finally have t: "map lower_char (take (length path) p) = map lower_char path" .
  have "map lower_char (drop (length path) p) = drop (length path) (map lower_char p)" by (simp add: drop_map)
  also have "\<dots> = replicate k CHR ''/''" using k by simp
  finally have "drop (length path) p = replicate k CHR ''/''" by (simp add: map_lower_slashes)
  with t show "route_match path p" by (simp add: route_match_def seg_eq_def list_all_iff)
qed

lemma takeWhile_slash:
  "CHR ''/'' \<notin> set xs \<Longrightarrow> takeWhile (\<lambda>c. c \<noteq> CHR ''/'') (xs @ replicate j CHR ''/'') = xs"
proof (induction xs)
  case Nil
  then show ?case by (cases j) simp_all
qed auto

lemma slash_free_prefix:
  assumes "CHR ''/'' \<notin> set xs" and "CHR ''/'' \<notin> set ys"
    and "xs @ replicate j CHR ''/'' = ys @ replicate k CHR ''/''"
  shows "xs = ys"
  using takeWhile_slash [OF assms(1), of j] takeWhile_slash [OF assms(2), of k] assms(3) by simp

lemma slash_free_lower: "CHR ''/'' \<notin> set s \<Longrightarrow> CHR ''/'' \<notin> set (map lower_char s)"
  by (induction s) (auto simp: slash_lower_char)

text \<open>A one-segment location \<^verbatim>\<open>/s\<close> followed by \<open>j\<close> slashes matches a static route
  \<^verbatim>\<open>/lit\<close> exactly when \<open>s\<close> is \<open>lit\<close> up to letter case.\<close>

lemma route_match_segment:
  assumes "CHR ''/'' \<notin> set s" and "CHR ''/'' \<notin> set lit"
  shows "route_match (''/'' @ lit) (''/'' @ s @ replicate j CHR ''/'') \<longleftrightarrow> seg_eq lit s"
proof
  assume "route_match (''/'' @ lit) (''/'' @ s @ replicate j CHR ''/'')"
  then obtain k where
    "map lower_char s @ replicate j CHR ''/'' = map lower_char lit @ replicate k CHR ''/''"
    by (auto simp: route_match_lower lower_char_slash)
  then show "seg_eq lit s"
    using slash_free_prefix [OF slash_free_lower [OF assms(1)] slash_free_lower [OF assms(2)]]
    by (simp add: seg_eq_def)
next
  assume "seg_eq lit s"
  then have "map lower_char (''/'' @ s @ replicate j CHR ''/'') = map lower_char (''/'' @ lit) @ replicate j CHR ''/''"
    using map_lower_slashes [of "replicate j CHR ''/''" j] by (simp add: seg_eq_def lower_char_slash)
  then show "route_match (''/'' @ lit) (''/'' @ s @ replicate j CHR ''/'')" by (auto simp: route_match_lower)
qed

lemma app_render_cases:
  "app_render p = (if route_match ''/login'' p then Some LoginPanel
                   else if route_match ''/register'' p then Some Register else None)"
  by (simp add: app_render_def app_routes_def)

subsection \<open>Properties of the route table\<close>

text \<open>
  C25 (functional). A one-segment location renders the login panel when the segment is
  \<^verbatim>\<open>login\<close> and the registration page when it is \<^verbatim>\<open>register\<close>, in any
  letter case, with or without a trailing slash, and nothing otherwise.
\<close>

theorem app_render_one_segment:
  assumes "CHR ''/'' \<notin> set s" and "s \<noteq> []"
  shows "app_render (''/'' @ s) = app_render (''/'' @ s @ ''/'') \<and>
         app_render (''/'' @ s) = (if seg_eq ''login'' s then Some LoginPanel
                                  else if seg_eq ''register'' s then Some Register else None)"
proof -
  have r: "route_match (''/'' @ lit) (''/'' @ s @ replicate j CHR ''/'') \<longleftrightarrow> seg_eq lit s"
    if "CHR ''/'' \<notin> set lit" for lit j
    using route_match_segment [OF assms(1) that] .
  have m: "(route_match (''/'' @ lit) (''/'' @ s) \<longleftrightarrow> seg_eq lit s) \<and>
      (route_match (''/'' @ lit) (''/'' @ s @ ''/'') \<longleftrightarrow> seg_eq lit s)"
    if "CHR ''/'' \<notin> set lit" for lit
    using r [OF that, of 0] r [OF that, of 1] by simp
  have "(route_match ''/login'' (''/'' @ s) \<longleftrightarrow> seg_eq ''login'' s) \<and>
      (route_match ''/login'' (''/'' @ s @ ''/'') \<longleftrightarrow> seg_eq ''login'' s)"
    using m [of "''login''"] by simp
  moreover have "(route_match ''/register'' (''/'' @ s) \<longleftrightarrow> seg_eq ''register'' s) \<and>
      (route_match ''/register'' (''/'' @ s @ ''/'') \<longleftrightarrow> seg_eq ''register'' s)"
    using m [of "''register''"] by simp
  ultimately show ?thesis by (simp add: app_render_cases)
qed

text \<open>
  C26 (safety). Nothing but the two routes renders a page: a location that renders one
  is a slash, a segment equal to \<^verbatim>\<open>login\<close> or \<^verbatim>\<open>register\<close> up to letter
  case, and nothing after it but slashes.
\<close>

theorem app_render_only_routes:
  assumes "app_render p \<noteq> None"
  shows "\<exists>a k. p = ''/'' @ a @ replicate k CHR ''/'' \<and> (seg_eq ''login'' a \<or> seg_eq ''register'' a)"
proof -
  obtain lit where lit: "lit = ''login'' \<or> lit = ''register''" and m: "route_match (''/'' @ lit) p"
    using assms by (auto simp: app_render_cases split: if_splits)
  then obtain k where k: "map lower_char p = CHR ''/'' # map lower_char lit @ replicate k CHR ''/''"
    by (auto simp: route_match_lower)
  let ?n = "Suc (length lit)"
  have "map lower_char (take ?n p) = take ?n (map lower_char p)" by (simp add: take_map)
  then have t: "map lower_char (take ?n p) = CHR ''/'' # map lower_char lit" using k by simp
  have "map lower_char (drop ?n p) = drop ?n (map lower_char p)" by (simp add: drop_map)
  then have "map lower_char (drop ?n p) = replicate k CHR ''/''" using k by simp
  then have d: "drop ?n p = replicate k CHR ''/''" by (simp add: map_lower_slashes)
  obtain c a where ca: "take ?n p = c # a" using t by (cases "take ?n p") auto
  with t have "c = CHR ''/''" and "map lower_char a = map lower_char lit"
    by (simp_all add: lower_char_slash)
  then have "p = ''/'' @ a @ replicate k CHR ''/''" and "seg_eq lit a"
    using ca d append_take_drop_id [of ?n p] by (simp_all add: seg_eq_def)
  with lit show ?thesis by blast
qed

end
