(* ===== verification/Spec2Isabelle.thy ===== *)
theory Spec2Isabelle
  imports Server Frontend Http
begin

text \<open>
  \<^bold>\<open>A verification model of the dealership review API.\<close>

  \<^bold>\<open>The program.\<close> \<^verbatim>\<open>src/app.js\<close> is an Express server over a MongoDB store
  reached through mongoose. At start it reads two seed files (\<^verbatim>\<open>reviews.json\<close>,
  \<^verbatim>\<open>dealerships.json\<close>, lines 15--31), opens one connection (lines 33--46), and
  an asynchronous seeder (lines 51--69) waits for the connection, empties both
  collections and bulk-inserts the seed records. Seven routes (lines 71--133) answer
  requests: the welcome text, all reviews, the reviews of one dealer, all dealerships,
  the dealerships of one state, one dealership by id, and the insertion of a review,
  whose id is the greatest stored id plus one. \<^verbatim>\<open>src/server/frontend/src/App.js\<close>
  is a React route table with a login and a register page, unrelated to the API.

  \<^bold>\<open>Theories and what they model.\<close>
  \<^item> \<open>Prelude\<close>: the named collections (\<open>js_simps\<close>, \<open>store_simps\<close>,
    \<open>handler_simps\<close>: the definitions a witness unfolds), the sequencing of fallible
    steps (\<open>sum_bind\<close>), and the shared facts on \<open>those\<close>, \<open>map_filter\<close> and the
    maximum of a sorted list.
  \<^item> \<open>Json\<close>: JavaScript values (\<open>jval\<close>, objects as association lists \<open>obj\<close>),
    property read \<^verbatim>\<open>x.k\<close> (\<open>js_prop\<close>), truthiness (\<open>js_truthy\<close>), \<^verbatim>\<open>||\<close>
    (\<open>js_or\<close>) and the object spread (\<open>obj_spread\<close>).
  \<^item> \<open>JsNumber\<close>: ECMAScript \<^verbatim>\<open>parseInt\<close> (\<open>parse_int\<close>) and \<^verbatim>\<open>Number\<close> on
    strings (\<open>js_string_to_int\<close>), both the exact value of the digits
    (\<open>parse_int_math\<close>, \<open>str_int_math\<close>) rounded to binary64 (\<open>to_double\<close>),
    with decimal printing (\<open>int_to_dec\<close>), and the
    addition of numbers on integers (\<open>js_add\<close>: the exact sum rounded to binary64,
    ties to even, \<open>round_double\<close>), and which strings \<^verbatim>\<open>Number\<close> reads as a
    number at all (\<open>str_numeric\<close>, the StringNumericLiteral grammar); built-ins
    the program calls, modelled from ECMA-262 and IEEE 754.
  \<^item> \<open>Store\<close>: mongoose and MongoDB as the program uses them: the two collections
    and the connection flag (\<open>store\<close>), the casting of the Number fields of the two
    schemas (\<open>cast_doc\<close>; the schema files are not among the sources and follow the
    specification), the stored-document invariant (\<open>doc_ok\<close>, \<open>store_ok\<close>), and
    one definition per mongoose call (\<open>find_all\<close>, \<open>find_eq\<close>, \<open>find_one_eq\<close>,
    \<open>find_sorted_desc\<close>, \<open>delete_all\<close>, \<open>insert_many\<close>, \<open>save\<close>), each
    failing with a \<open>store_error\<close> as the promise would reject.
  \<^item> \<open>Router\<close>: one definition per route handler of \<^verbatim>\<open>src/app.js\<close>
    (\<open>welcome_msg\<close>, \<open>fetch_reviews\<close>, \<open>fetch_reviews_by_dealer\<close>,
    \<open>fetch_dealers\<close>, \<open>fetch_dealers_by_state\<close>, \<open>fetch_dealer\<close>,
    \<open>insert_review\<close>) with the response it sends (\<open>response\<close>) and the store it
    leaves, and the Express dispatch (\<open>handle\<close>). \<open>next_id_spec\<close> is the contract
    of the id assignment, \<open>assigned_id\<close> the id the code computes (its \<^verbatim>\<open>+ 1\<close> a
    number addition), \<open>body_shape\<close> the shape a client may expect of each status.
  \<^item> \<open>Http\<close>: the configuration (\<open>port\<close>, \<open>mongo_uri\<close>) and the middleware in
    front of the routes (lines 11--13): CORS preflight, the urlencoded and JSON body
    parsers with their limits (\<open>parse_body\<close>), Node's form decoding
    (\<open>qs_parse\<close>), the spread of \<^verbatim>\<open>req.body\<close> (\<open>spread_source\<close>), the whole
    stack (\<open>middleware\<close>, \<open>serve\<close>), and the address \<^verbatim>\<open>app.listen\<close> binds (\<open>listen_addr\<close>:
    a TCP port, a local socket path, or the start-up failure of Node's port check).
    A browser's form encoder (\<open>form_encode\<close>) is the reference of
    the round trip.
  \<^item> \<open>Frontend\<close>: the React route table of \<^verbatim>\<open>App.js\<close> (\<open>app_routes\<close>,
    \<open>app_render\<close>) with React Router's matching.
  \<^item> \<open>Seeder\<close>: the loading of the seed files (\<open>load_seed\<close>, \<open>load_seeds\<close>:
    a file that cannot be read or parsed leaves \<^verbatim>\<open>null\<close>), the two accepted
    shapes of a seed file (\<open>seed_items\<close>, \<^verbatim>\<open>x.reviews || x\<close>), and the seeding
    block (lines 51--69) twice: as the code reads (\<open>seed_database\<close>) and as a
    phase machine with one step per \<^verbatim>\<open>await\<close> (\<open>seed_phase\<close>,
    \<open>seed_step\<close>, \<open>seed_run\<close>); the two agree (\<open>seed_run_refines\<close>). \<open>seed_run\<close> terminates
    by the measure \<open>phase_rank\<close>, which each step lowers, so no fuel is needed.
  \<^item> \<open>Server\<close>: the running process as a step relation \<open>server_step\<close> on
    \<open>sys\<close> (store, whether the first connection attempt has settled, seeder phase,
    insertions in flight, responses sent). A step is the code between two
    \<^verbatim>\<open>await\<close>s: a connection event, one seeder phase, an HTTP request
    answered by the middleware of Http (\<open>middleware\<close>), a read route
    (\<open>handle\<close>) of a request the middleware hands on, or half of \<^verbatim>\<open>insert_review\<close> (\<open>insert_begin\<close> reads and
    computes \<^verbatim>\<open>new_id\<close>, \<open>insert_commit\<close> saves and responds). \<open>reach\<close>
    collects the states reached from the store an earlier run left;
    \<open>run_requests\<close> serves requests one after another. \<open>seed_inv\<close> states what
    each seeder phase leaves in the store whatever requests run.

  \<^bold>\<open>What is proved.\<close> Router (C1--C12): the id the handler reads from its
  sorted query against the greatest stored id (equivalence), each handler on every
  branch including errors, the stored-document invariant and frame of every
  request, and what the numeric path parameter reads (\<^verbatim>\<open>parseInt\<close> rounds to
  binary64, so ids above \<open>2^53\<close> collapse). Seeder (C13--C17): the outcome on every
  branch (seeded, partial failure, skipped), the falsy seed-file wrapper, and the
  invariant. Server (C18, C19, C21--C24, C30): the stored-document invariant over all
  reachable states by rule induction, what the store holds after seeding or when
  seeding is skipped whatever the interleaving, the race of two insertions from any
  connected state (both get the same id), the loss of an acknowledged review posted
  before the seeder's deletes from any such state, distinct ids under sequential
  use, the completion of pending insertions, and the shape of every response the
  process sends. C20 (root): the specification's concrete scenario (seed, then two
  insertions get ids 1 and 2) for any seed files with no reviews, across the seeder
  and the router. Frontend (C25--C26): the page each location renders, with React
  Router's matcher. Number bounds (C27--C29): the assigned id is the contract's
  exactly below \<open>2^53\<close>, and from there it stops growing, so that one stored
  review with id \<open>2^53\<close> (which a client can post) makes every later insertion
  reuse it. Http (C31--C35): the form round trip, a form-posted review inserted as
  its cast fields, the address \<^verbatim>\<open>app.listen\<close> binds for each kind of
  \<^verbatim>\<open>PORT\<close>, the id-only review a bodiless insertion stores, and that across the
  whole stack only an insertion writes, appending one review.

  \<^bold>\<open>Supporting lemmas.\<close> The phase machine computes what the sequential seeding
  block computes (\<open>seed_run_refines\<close>) and always ends (\<open>seed_run_ends\<close>);
  serving requests one at a time is one schedule of the process
  (\<open>run_requests_schedule\<close>), by simulating each handler with one or two steps;
  the seeder can always finish (\<open>seeder_can_finish\<close>). These relate the
  development's own models to each other and carry the proofs above.

  \<^bold>\<open>Over-approximations.\<close> The process model lets the connection come back after
  a failed first attempt and lets the seeder's wait fail after a later drop, though
  \<^verbatim>\<open>asPromise()\<close> has then already settled; Express dispatch is given the path as
  its non-empty segments, so a path with a doubled slash, which Express does not
  route, is routed here like the single-slash path.

  \<^bold>\<open>Not modelled.\<close> Logging; the HTTP transport and the socket I/O of
  \<^verbatim>\<open>app.listen\<close> (the address it binds is modelled); a \<^verbatim>\<open>PORT\<close> that is a
  numeric literal but not an integer (\<^verbatim>\<open>1.5\<close>, \<^verbatim>\<open>1e3\<close>, where
  \<open>listen_addr\<close> is \<open>None\<close>); the headers \<^verbatim>\<open>cors()\<close> adds; the JSON text
  syntax (a JSON body arrives parsed); the UTF-8 decoding of percent-escapes (exact for ASCII); the
  timing of the driver's buffering of operations while disconnected (an operation
  that waits for the connection is the same step taken after \<open>conn_open\<close> or
  \<open>conn_back\<close>, which the scheduler may choose; one that times out is the immediate
  failure the store operations give when disconnected); the \<^verbatim>\<open>_id\<close> and \<^verbatim>\<open>__v\<close> fields mongoose adds; the schemas' strict
  mode, which drops fields the schema does not declare (the schema files are not
  among the sources, and the specification does not list the fields); numbers
  other than integers (fractions, \<^verbatim>\<open>NaN\<close> inside documents), and values beyond
  the largest finite double (\<^verbatim>\<open>Infinity\<close>); the percent-decoding React Router
  applies to the location.
\<close>

subsection \<open>Witnesses\<close>

text \<open>
  A store with the specification's concrete scenario (dealership 1 in \<^verbatim>\<open>NY\<close>, one
  review of it) and a second dealership whose loosely typed \<^verbatim>\<open>state\<close> is an array;
  each theorem below applies one property at this store.
\<close>

definition demo_store :: store where
  "demo_store = \<lparr>reviews = [[(''id'', JNum 1), (''dealership'', JNum 1), (''name'', JStr ''A'')]],
     dealerships = [[(''id'', JNum 1), (''state'', JStr ''NY'')],
                    [(''id'', JNum 2), (''state'', JArr [JStr ''NY'', JStr ''NJ''])]],
     connected = True\<rparr>"

definition demo_body :: obj where
  "demo_body = [(''dealership'', JNum 1), (''name'', JStr ''B''), (''rating'', JNum 5)]"

definition demo_review :: obj where
  "demo_review = [(''id'', JNum 2), (''dealership'', JNum 1), (''name'', JStr ''B''), (''rating'', JNum 5)]"

definition dup_body :: obj where
  "dup_body = [(''id'', JNum 1), (''dealership'', JNum 1), (''name'', JStr ''C'')]"

definition demo_seed :: loaded where
  "demo_seed = \<lparr>reviews_data = JObj [(''reviews'', JArr [JObj [(''id'', JNum 1), (''dealership'', JNum 1)]])],
                 dealerships_data = JArr [JObj [(''id'', JNum 1), (''state'', JStr ''NY'')]]\<rparr>"

definition bad_dealers_seed :: loaded where
  "bad_dealers_seed = demo_seed\<lparr>dealerships_data := JArr [JObj [(''id'', JStr ''x'')]]\<rparr>"

definition other_body :: obj where
  "other_body = [(''dealership'', JNum 1), (''name'', JStr ''C'')]"

definition other_review :: obj where
  "other_review = [(''id'', JNum 2), (''dealership'', JNum 1), (''name'', JStr ''C'')]"

definition skip_seed :: loaded where
  "skip_seed = \<lparr>reviews_data = JNull, dealerships_data = JNull\<rparr>"

text \<open>
  Two runs of the process. In \<open>race_state\<close> the seeding is skipped and two clients
  post a review each; both reads run before either save. In \<open>lost_state\<close> a client
  posts a review before the seeder has started its deletes, and the seeder then runs
  to its end.
\<close>

definition race_state :: sys where
  "race_state = \<lparr>db = demo_store\<lparr>reviews := reviews demo_store @ [demo_review, other_review]\<rparr>,
     settled = True, phase = SeedSkipped, pending = [],
     sent = [json_ok (JObj demo_review), json_ok (JObj other_review)]\<rparr>"

text \<open>States of the process with the store connected and no request in flight.\<close>

definition race_start :: sys where
  "race_start = \<lparr>db = demo_store, settled = True, phase = SeedSkipped, pending = [], sent = []\<rparr>"

definition lost_start :: sys where
  "lost_start = \<lparr>db = demo_store, settled = True, phase = AwaitConnection, pending = [], sent = []\<rparr>"

definition lost_state :: sys where
  "lost_state = \<lparr>db = demo_store\<lparr>reviews := [[(''id'', JNum 1), (''dealership'', JNum 1)]],
                                   dealerships := [[(''id'', JNum 1), (''state'', JStr ''NY'')]]\<rparr>,
     settled = True, phase = Seeded, pending = [], sent = [json_ok (JObj demo_review)]\<rparr>"

text \<open>A store holding a review posted with the id \<open>2^53\<close>, and what the next insertion saves.\<close>

definition big_store :: store where
  "big_store = demo_store\<lparr>reviews := [[(''id'', JNum (2 ^ 53)), (''dealership'', JNum 1)]]\<rparr>"

definition big_review :: obj where
  "big_review = (''id'', JNum (2 ^ 53)) # demo_body"

text \<open>A review as a browser posts it from a form.\<close>

definition demo_form :: "(string \<times> string) list" where
  "demo_form = [(''dealership'', ''7''), (''name'', ''Ann Lee'')]"

text \<open>
  The specification's concrete scenario: seed files with dealership 1 in \<^verbatim>\<open>NY\<close> and
  no reviews, and the body \<^verbatim>\<open>{dealership: 1, name: "A", rating: 5}\<close>.
\<close>

definition spec_seed :: loaded where
  "spec_seed = \<lparr>reviews_data = JArr [],
                 dealerships_data = JArr [JObj [(''id'', JNum 1), (''state'', JStr ''NY'')]]\<rparr>"

definition spec_body :: obj where
  "spec_body = [(''dealership'', JNum 1), (''name'', JStr ''A''), (''rating'', JNum 5)]"

lemmas demo_defs = demo_store_def demo_body_def demo_review_def dup_body_def

lemmas cast_defs = review_of_def cast_doc_def cast_field_def number_fields_def

lemma seg_insert: "seg_eq ''insert_review'' ''insert_review''"
  by (simp add: seg_eq_def)

lemma demo_connected: "connected demo_store"
  by (simp add: demo_store_def)

lemma demo_next_id: "next_id_spec (reviews demo_store) = 2" "assigned_id (reviews demo_store) = 2"
  by (simp_all add: demo_store_def next_id_spec_def assigned_id_spec id_key_def)

lemma race_state_reach: "reach skip_seed demo_store race_state"
proof -
  define s1 where "s1 = (init_sys skip_seed demo_store)\<lparr>db := (db (init_sys skip_seed demo_store))\<lparr>connected := True\<rparr>, settled := True\<rparr>"
  have r1: "reach skip_seed demo_store s1"
    unfolding s1_def by (rule reach.step [OF reach.start], rule server_step.conn_open) (simp add: init_sys_def)
  define s2 where "s2 = insert_begin demo_body s1"
  have r2: "reach skip_seed demo_store s2"
    unfolding s2_def by (rule reach.step [OF r1], rule server_step.begin_insert [OF middleware_json seg_insert])
  define s3 where "s3 = insert_begin other_body s2"
  have r3: "reach skip_seed demo_store s3"
    unfolding s3_def by (rule reach.step [OF r2], rule server_step.begin_insert [OF middleware_json seg_insert])
  have s3: "s3 = \<lparr>db = demo_store, settled = True, phase = SeedSkipped,
      pending = [(demo_body, 2), (other_body, 2)], sent = []\<rparr>"
    by (simp add: s3_def s2_def s1_def init_sys_def insert_begin_def find_sorted_desc_def coll_docs_def
        demo_store_def first_id_def seed_start_def skip_seed_def)
  have p3: "pending s3 = [] @ (demo_body, 2) # [(other_body, 2)]" by (simp add: s3)
  define s4 where "s4 = insert_commit demo_body 2 (s3\<lparr>pending := [] @ [(other_body, 2)]\<rparr>)"
  have r4: "reach skip_seed demo_store s4"
    unfolding s4_def by (rule reach.step [OF r3], rule server_step.commit_insert [OF p3])
  have c1: "cast_doc Reviews (review_of 2 demo_body) = Some demo_review"
    by (simp add: cast_defs demo_body_def demo_review_def)
  have c2: "cast_doc Reviews (review_of 2 other_body) = Some other_review"
    by (simp add: cast_defs other_body_def other_review_def)
  have s4: "s4 = \<lparr>db = demo_store\<lparr>reviews := reviews demo_store @ [demo_review]\<rparr>, settled = True,
      phase = SeedSkipped, pending = [(other_body, 2)], sent = [json_ok (JObj demo_review)]\<rparr>"
    using save_Reviews [OF demo_connected c1] by (simp add: s4_def insert_commit_def s3)
  have p4: "pending s4 = [] @ (other_body, 2) # []" by (simp add: s4)
  define s5 where "s5 = insert_commit other_body 2 (s4\<lparr>pending := [] @ []\<rparr>)"
  have r5: "reach skip_seed demo_store s5"
    unfolding s5_def by (rule reach.step [OF r4], rule server_step.commit_insert [OF p4])
  have "s5 = race_state"
    using save_Reviews [OF _ c2, of "db s4"] demo_connected
    by (simp add: s5_def insert_commit_def race_state_def s4)
  with r5 show ?thesis by simp
qed

lemma lost_state_reach: "reach demo_seed demo_store lost_state"
proof -
  define s1 where "s1 = (init_sys demo_seed demo_store)\<lparr>db := (db (init_sys demo_seed demo_store))\<lparr>connected := True\<rparr>, settled := True\<rparr>"
  have r1: "reach demo_seed demo_store s1"
    unfolding s1_def by (rule reach.step [OF reach.start], rule server_step.conn_open) (simp add: init_sys_def)
  define s2 where "s2 = insert_begin demo_body s1"
  have r2: "reach demo_seed demo_store s2"
    unfolding s2_def by (rule reach.step [OF r1], rule server_step.begin_insert [OF middleware_json seg_insert])
  have s2: "s2 = \<lparr>db = demo_store, settled = True, phase = AwaitConnection,
      pending = [(demo_body, 2)], sent = []\<rparr>"
    by (simp add: s2_def s1_def init_sys_def insert_begin_def find_sorted_desc_def coll_docs_def
        demo_store_def first_id_def seed_start_def demo_seed_def)
  have p2: "pending s2 = [] @ (demo_body, 2) # []" by (simp add: s2)
  define s3 where "s3 = insert_commit demo_body 2 (s2\<lparr>pending := [] @ []\<rparr>)"
  have r3: "reach demo_seed demo_store s3"
    unfolding s3_def by (rule reach.step [OF r2], rule server_step.commit_insert [OF p2])
  have c1: "cast_doc Reviews (review_of 2 demo_body) = Some demo_review"
    by (simp add: cast_defs demo_body_def demo_review_def)
  have s3: "s3 = \<lparr>db = demo_store\<lparr>reviews := reviews demo_store @ [demo_review]\<rparr>, settled = True,
      phase = AwaitConnection, pending = [], sent = [json_ok (JObj demo_review)]\<rparr>"
    using save_Reviews [OF demo_connected c1] by (simp add: s3_def insert_commit_def s2)
  have cr: "cast_many Reviews (seed_items ''reviews'' (reviews_data demo_seed)) =
      Some [[(''id'', JNum 1), (''dealership'', JNum 1)]]"
    and cd: "cast_many Dealerships (seed_items ''dealerships'' (dealerships_data demo_seed)) =
      Some [[(''id'', JNum 1), (''state'', JStr ''NY'')]]"
    by (simp_all add: demo_seed_def seed_items_def js_or_def cast_many_def cast_value_def
        cast_doc_def cast_field_def number_fields_def)
  have run: "seed_run demo_seed AwaitConnection (db s3) =
      (Seeded, (db s3)\<lparr>reviews := [[(''id'', JNum 1), (''dealership'', JNum 1)]],
                       dealerships := [[(''id'', JNum 1), (''state'', JStr ''NY'')]]\<rparr>)"
    using demo_connected cr cd by (simp add: s3 seed_run_connected seed_run_from_insert insert_many_ok)
  have "reach demo_seed demo_store (s3\<lparr>phase := fst (seed_run demo_seed (phase s3) (db s3)),
      db := snd (seed_run demo_seed (phase s3) (db s3))\<rparr>)"
    by (rule reach_steps [OF seed_run_steps r3]) (simp add: s3)
  moreover have "s3\<lparr>phase := fst (seed_run demo_seed (phase s3) (db s3)),
      db := snd (seed_run demo_seed (phase s3) (db s3))\<rparr> = lost_state"
    using run by (simp add: s3 lost_state_def)
  ultimately show ?thesis by simp
qed

theorem insert_review_assigns_next_id_witness:
  "connected demo_store \<and> obj_get demo_body ''id'' = None \<and> \<bar>next_id_spec (reviews demo_store)\<bar> < 2 ^ 53 \<and>
   cast_doc Reviews (review_of (next_id_spec (reviews demo_store)) demo_body) = Some demo_review \<and>
   insert_review demo_body demo_store =
     (json_ok (JObj demo_review), demo_store\<lparr>reviews := reviews demo_store @ [demo_review]\<rparr>) \<and>
   obj_get demo_review ''id'' = Some (JNum 2)"
proof -
  have b: "obj_get demo_body ''id'' = None" by (simp add: demo_body_def)
  have n: "\<bar>next_id_spec (reviews demo_store)\<bar> < 2 ^ 53" by (simp add: demo_next_id)
  have c: "cast_doc Reviews (review_of (next_id_spec (reviews demo_store)) demo_body) = Some demo_review"
    unfolding demo_next_id by (simp add: demo_body_def demo_review_def cast_defs)
  note h = demo_connected b n c
  with demo_next_id Router.insert_review_assigns_next_id [OF h] show ?thesis by simp
qed

lemma demo_store_ok: "store_ok demo_store"
  by (simp add: demo_store_def store_ok_def doc_ok_def wf_obj_def number_ok_def number_fields_def)

theorem insert_review_fails_witness:
  "\<not> connected (demo_store\<lparr>connected := False\<rparr>) \<and>
   insert_review demo_body (demo_store\<lparr>connected := False\<rparr>) =
     (json_status 500 ''error'' ''Error inserting review'', demo_store\<lparr>connected := False\<rparr>)"
proof -
  have h: "\<not> connected (demo_store\<lparr>connected := False\<rparr>) \<or>
    cast_doc Reviews (review_of (assigned_id (reviews (demo_store\<lparr>connected := False\<rparr>))) demo_body) = None"
    by simp
  show ?thesis using h Router.insert_review_fails [OF h] by simp
qed

theorem fetch_reviews_by_dealer_exact_witness:
  "store_ok demo_store \<and> connected demo_store \<and> parse_int ''1'' = Some 1 \<and>
   fetch_reviews_by_dealer ''1'' demo_store = json_ok (docs_json (reviews demo_store))"
proof -
  have c: "connected demo_store" by (simp add: demo_store_def)
  have p: "parse_int ''1'' = Some 1"
    by (simp add: parse_int_def parse_int_math_def js_ws_def take_digits_def digit_val_def digits_value_def
        to_double_small)
  note h = demo_store_ok c p
  have eq: "filter (\<lambda>d. obj_get d ''dealership'' = Some (JNum 1)) (reviews demo_store) = reviews demo_store"
    by (simp add: demo_store_def)
  show ?thesis using h Router.fetch_reviews_by_dealer_exact [OF h] eq by simp
qed

theorem fetch_dealer_found_or_404_witness:
  "store_ok demo_store \<and> connected demo_store \<and> parse_int ''3'' = Some 3 \<and>
   fetch_dealer ''3'' demo_store = json_status 404 ''message'' ''Dealer not found''"
proof -
  have c: "connected demo_store" by (simp add: demo_store_def)
  have p: "parse_int ''3'' = Some 3"
    by (simp add: parse_int_def parse_int_math_def js_ws_def take_digits_def digit_val_def digits_value_def
        to_double_small)
  note h = demo_store_ok c p
  show ?thesis using h Router.fetch_dealer_found_or_404 [OF h] by (simp add: demo_store_def)
qed

theorem numeric_routes_nan_500_witness:
  "parse_int ''abc'' = None \<and>
   fetch_dealer ''abc'' demo_store = json_status 500 ''error'' ''Error fetching dealer by id'' \<and>
   fetch_reviews_by_dealer ''abc'' demo_store = json_status 500 ''error'' ''Error fetching documents''"
proof -
  have h: "parse_int ''abc'' = None"
    by (simp add: parse_int_def parse_int_math_def js_ws_def take_digits_def digit_val_def)
  show ?thesis using h Router.numeric_routes_nan_500 [OF h] by simp
qed

theorem handle_keeps_store_ok_witness:
  "store_ok demo_store \<and> store_ok (snd (handle (POST [''insert_review''] demo_body) demo_store))"
  using demo_store_ok Router.handle_keeps_store_ok [OF demo_store_ok, of "POST [''insert_review''] demo_body"]
  by (rule conjI)

theorem fetch_dealers_by_state_result_witness:
  "connected demo_store \<and>
   fetch_dealers_by_state ''NY'' demo_store = json_ok (docs_json (dealerships demo_store))"
proof -
  have h: "connected demo_store" by (simp add: demo_store_def)
  show ?thesis using h Router.fetch_dealers_by_state_result [OF h] by (simp add: demo_store_def)
qed

theorem insert_review_body_id_wins_witness:
  "connected demo_store \<and> wf_obj dup_body \<and> obj_get dup_body ''id'' = Some (JNum 1) \<and>
   cast_doc Reviews (review_of (assigned_id (reviews demo_store)) dup_body) = Some dup_body \<and>
   insert_review dup_body demo_store =
     (json_ok (JObj dup_body), demo_store\<lparr>reviews := reviews demo_store @ [dup_body]\<rparr>) \<and>
   obj_get dup_body ''id'' = Some (JNum 1) \<and>
   map id_key (reviews demo_store @ [dup_body]) = [Some 1, Some 1]"
proof -
  have h: "connected demo_store" "wf_obj dup_body" "obj_get dup_body ''id'' = Some (JNum 1)"
    "cast_doc Reviews (review_of (assigned_id (reviews demo_store)) dup_body) = Some dup_body"
    unfolding demo_next_id
    by (simp_all add: demo_connected dup_body_def wf_obj_def cast_defs)
  have "map id_key (reviews demo_store @ [dup_body]) = [Some 1, Some 1]"
    by (simp add: demo_defs id_key_def)
  with h Router.insert_review_body_id_wins [OF h] show ?thesis by simp
qed

theorem int_param_dec_prefix_witness:
  "take_digits 10 ''abc'' = [] \<and> (12::nat) \<noteq> 0 \<and>
   int_param (nat_to_dec 12 @ ''abc'') = QVal (JNum 12)"
proof -
  have h: "take_digits 10 ''abc'' = []" "(12::nat) \<noteq> 0 \<or> take 1 ''abc'' \<notin> {''x'', ''X''}"
    by (simp_all add: take_digits_def digit_val_def)
  show ?thesis using h Router.int_param_dec_prefix [OF h] by (simp add: to_double_small)
qed

theorem first_id_sort_desc_witness:
  "find_sorted_desc Reviews demo_store = Inr (reviews demo_store) \<and>
   first_id (reviews demo_store) = 1"
proof -
  have h: "find_sorted_desc Reviews demo_store = Inr (reviews demo_store)"
    by (simp add: find_sorted_desc_def coll_docs_def demo_store_def)
  show ?thesis using h Router.first_id_sort_desc [OF h]
    by (simp add: demo_store_def id_key_def List.map_filter_def)
qed

theorem int_param_int_to_dec_witness:
  "\<bar>12::int\<bar> < 2 ^ 53 \<and> int_param (int_to_dec 12) = QVal (JNum 12) \<and>
   int_param (int_to_dec (2 ^ 53 + 1)) = QVal (JNum (2 ^ 53))"
  using Router.int_param_int_to_dec [of 12] by (simp add: to_double_small)

theorem seed_database_seeded_witness:
  "js_truthy (reviews_data demo_seed) \<and> js_truthy (dealerships_data demo_seed) \<and> connected demo_store \<and>
   cast_many Reviews (seed_items ''reviews'' (reviews_data demo_seed)) = Some [[(''id'', JNum 1), (''dealership'', JNum 1)]] \<and>
   cast_many Dealerships (seed_items ''dealerships'' (dealerships_data demo_seed)) = Some [[(''id'', JNum 1), (''state'', JStr ''NY'')]] \<and>
   seed_database demo_seed demo_store =
     (Seeded, demo_store\<lparr>reviews := [[(''id'', JNum 1), (''dealership'', JNum 1)]],
                         dealerships := [[(''id'', JNum 1), (''state'', JStr ''NY'')]]\<rparr>)"
proof -
  have h: "js_truthy (reviews_data demo_seed)" "js_truthy (dealerships_data demo_seed)" "connected demo_store"
    "cast_many Reviews (seed_items ''reviews'' (reviews_data demo_seed)) = Some [[(''id'', JNum 1), (''dealership'', JNum 1)]]"
    "cast_many Dealerships (seed_items ''dealerships'' (dealerships_data demo_seed)) = Some [[(''id'', JNum 1), (''state'', JStr ''NY'')]]"
    by (simp_all add: demo_seed_def demo_store_def seed_items_def js_or_def cast_many_def cast_value_def
        cast_doc_def cast_field_def number_fields_def)
  show ?thesis using h Seeder.seed_database_seeded [OF h] by simp
qed

theorem seed_database_partial_failure_witness:
  "js_truthy (reviews_data bad_dealers_seed) \<and> js_truthy (dealerships_data bad_dealers_seed) \<and>
   connected demo_store \<and>
   cast_many Reviews (seed_items ''reviews'' (reviews_data bad_dealers_seed)) = Some [[(''id'', JNum 1), (''dealership'', JNum 1)]] \<and>
   cast_many Dealerships (seed_items ''dealerships'' (dealerships_data bad_dealers_seed)) = None \<and>
   seed_database bad_dealers_seed demo_store =
     (SeedFailed, demo_store\<lparr>reviews := [[(''id'', JNum 1), (''dealership'', JNum 1)]], dealerships := []\<rparr>)"
proof -
  have h: "js_truthy (reviews_data bad_dealers_seed)" "js_truthy (dealerships_data bad_dealers_seed)"
    "connected demo_store"
    "cast_many Reviews (seed_items ''reviews'' (reviews_data bad_dealers_seed)) = Some [[(''id'', JNum 1), (''dealership'', JNum 1)]]"
    "cast_many Dealerships (seed_items ''dealerships'' (dealerships_data bad_dealers_seed)) = None"
    by (simp_all add: bad_dealers_seed_def demo_seed_def demo_store_def seed_items_def js_or_def
        cast_many_def cast_value_def cast_doc_def cast_field_def number_fields_def js_string_to_int_def str_int_math_def to_double_small
        js_trim_def js_ws_def all_digits_def digit_val_def)
  show ?thesis using h Seeder.seed_database_partial_failure [OF h] by simp
qed

theorem seed_load_failure_keeps_store_witness:
  "reviews_file \<lparr>reviews_file = None, dealers_file = Some (dealerships_data demo_seed)\<rparr> = None \<and>
   seed_database (load_seeds \<lparr>reviews_file = None, dealers_file = Some (dealerships_data demo_seed)\<rparr>) demo_store
     = (SeedSkipped, demo_store) \<and>
   reviews demo_store \<noteq> []"
proof -
  have h: "reviews_file \<lparr>reviews_file = None, dealers_file = Some (dealerships_data demo_seed)\<rparr> = None \<or>
      dealers_file \<lparr>reviews_file = None, dealers_file = Some (dealerships_data demo_seed)\<rparr> = None"
    by simp
  have "reviews demo_store \<noteq> []" by (simp add: demo_store_def)
  with Seeder.seed_load_failure_keeps_store [OF h] show ?thesis by simp
qed

theorem seed_items_falsy_wrapper_witness:
  "\<not> js_truthy JNull \<and>
   cast_many Reviews (seed_items ''reviews'' (JObj [(''reviews'', JNull), (''source'', JStr ''export'')])) =
     Some [[(''reviews'', JNull), (''source'', JStr ''export'')]]"
proof -
  have h: "\<not> js_truthy JNull" by simp
  have "cast_doc Reviews [(''reviews'', JNull), (''source'', JStr ''export'')] =
      Some [(''reviews'', JNull), (''source'', JStr ''export'')]"
    by (simp add: cast_doc_def cast_field_def number_fields_def)
  with h Seeder.seed_items_falsy_wrapper [OF h, of Reviews "''reviews''" "[(''source'', JStr ''export'')]"]
  show ?thesis by simp
qed

theorem seed_database_store_ok_witness:
  "wf_jval (reviews_data demo_seed) \<and> wf_jval (dealerships_data demo_seed) \<and> store_ok demo_store \<and>
   store_ok (snd (seed_database demo_seed demo_store))"
proof -
  have h: "wf_jval (reviews_data demo_seed)" "wf_jval (dealerships_data demo_seed)"
    by (simp_all add: demo_seed_def)
  show ?thesis using h demo_store_ok Seeder.seed_database_store_ok [OF h demo_store_ok] by simp
qed

text \<open>
  C20 (functional). The specification's scenario across the seeder and the router:
  seed files holding no reviews and some dealerships, a connected store whatever it
  held before, then two insertions without an id served one after the other: the
  seeding replaces both collections, and the two reviews are saved and returned with
  ids 1 and 2, in that order.
\<close>

theorem seeded_then_two_inserts:
  assumes "js_truthy (reviews_data ld)" and "js_truthy (dealerships_data ld)" and "connected st"
    and "cast_many Reviews (seed_items ''reviews'' (reviews_data ld)) = Some []"
    and "cast_many Dealerships (seed_items ''dealerships'' (dealerships_data ld)) = Some ds"
    and "obj_get b1 ''id'' = None" and "obj_get b2 ''id'' = None"
    and "cast_doc Reviews (review_of 1 b1) = Some d1" and "cast_doc Reviews (review_of 2 b2) = Some d2"
  shows "fst (seed_database ld st) = Seeded \<and>
         run_requests [POST [''insert_review''] b1, POST [''insert_review''] b2] (snd (seed_database ld st)) =
           ([json_ok (JObj d1), json_ok (JObj d2)], st\<lparr>reviews := [d1, d2], dealerships := ds\<rparr>) \<and>
         obj_get d1 ''id'' = Some (JNum 1) \<and> obj_get d2 ''id'' = Some (JNum 2)"
proof -
  let ?st1 = "st\<lparr>reviews := [], dealerships := ds\<rparr>"
  have seed: "seed_database ld st = (Seeded, ?st1)"
    using assms(1-5) by (simp add: seed_database_connected seed_run_from_insert insert_many_ok)
  have id1: "obj_get d1 ''id'' = Some (JNum 1)"
    using cast_review_id [OF assms(8) review_of_id_absent [OF assms(6)]] .
  have id2: "obj_get d2 ''id'' = Some (JNum 2)"
    using cast_review_id [OF assms(9) review_of_id_absent [OF assms(7)]] .
  have n1: "next_id_spec [] = 1" and n2: "next_id_spec [d1] = 2"
    using id1 by (simp_all add: next_id_spec_def id_key_def List.map_filter_def)
  have i1: "insert_review b1 ?st1 = (json_ok (JObj d1), ?st1\<lparr>reviews := [d1]\<rparr>)"
    using insert_review_exact [of ?st1 b1 d1] assms(3,8) n1 by simp
  have i2: "insert_review b2 (?st1\<lparr>reviews := [d1]\<rparr>) = (json_ok (JObj d2), ?st1\<lparr>reviews := [d1, d2]\<rparr>)"
    using insert_review_exact [of "?st1\<lparr>reviews := [d1]\<rparr>" b2 d2] assms(3,9) n2 by simp
  show ?thesis using seed i1 i2 id1 id2 by (simp add: seg_eq_def)
qed

theorem server_store_ok_witness:
  "reach demo_seed demo_store lost_state \<and> wf_jval (reviews_data demo_seed) \<and>
   wf_jval (dealerships_data demo_seed) \<and> store_ok demo_store \<and> store_ok (db lost_state)"
proof -
  have w: "wf_jval (reviews_data demo_seed)" "wf_jval (dealerships_data demo_seed)"
    by (simp_all add: demo_seed_def)
  note h = lost_state_reach w demo_store_ok
  show ?thesis using h Server.server_store_ok [OF h] by simp
qed

theorem server_seed_outcome_witness:
  "reach demo_seed demo_store lost_state \<and> phase lost_state = Seeded \<and>
   seed_dealers demo_seed = Some [[(''id'', JNum 1), (''state'', JStr ''NY'')]] \<and>
   reach skip_seed demo_store race_state \<and> phase race_state = SeedSkipped \<and>
   dealerships (db race_state) = dealerships demo_store \<and>
   prefix (reviews demo_store) (reviews (db race_state))"
proof -
  have "phase lost_state = Seeded" and "phase race_state = SeedSkipped"
    by (simp_all add: lost_state_def race_state_def)
  then show ?thesis
    using lost_state_reach race_state_reach
      Server.server_seed_outcome [OF lost_state_reach] Server.server_seed_outcome [OF race_state_reach]
    by (simp add: lost_state_def)
qed

theorem insert_race_duplicate_ids_witness:
  "connected (db race_start) \<and> obj_get demo_body ''id'' = None \<and> obj_get other_body ''id'' = None \<and>
   cast_doc Reviews (review_of (assigned_id (reviews (db race_start))) demo_body) = Some demo_review \<and>
   cast_doc Reviews (review_of (assigned_id (reviews (db race_start))) other_body) = Some other_review \<and>
   (\<exists>t. (server_step skip_seed)\<^sup>*\<^sup>* race_start t \<and>
        sent t = [json_ok (JObj demo_review), json_ok (JObj other_review)] \<and>
        review_ids (db t) = [1, 2, 2])"
proof -
  have n: "assigned_id (reviews (db race_start)) = 2" using demo_next_id by (simp add: race_start_def)
  have h: "connected (db race_start)" "obj_get demo_body ''id'' = None" "obj_get other_body ''id'' = None"
    "cast_doc Reviews (review_of (assigned_id (reviews (db race_start))) demo_body) = Some demo_review"
    "cast_doc Reviews (review_of (assigned_id (reviews (db race_start))) other_body) = Some other_review"
    unfolding n
    by (simp_all add: race_start_def demo_store_def demo_body_def other_body_def cast_defs demo_review_def
        other_review_def)
  have "review_ids (db race_start) = [1]"
    by (simp add: race_start_def demo_store_def review_ids_def List.map_filter_def id_key_def)
  then show ?thesis using h Server.insert_race_duplicate_ids [OF h, of skip_seed] n
    by (auto simp add: race_start_def)
qed

theorem insert_lost_by_seeding_witness:
  "settled lost_start \<and> connected (db lost_start) \<and> phase lost_start = AwaitConnection \<and>
   seed_reviews demo_seed = Some [[(''id'', JNum 1), (''dealership'', JNum 1)]] \<and>
   seed_dealers demo_seed = Some [[(''id'', JNum 1), (''state'', JStr ''NY'')]] \<and>
   cast_doc Reviews (review_of (assigned_id (reviews (db lost_start))) demo_body) = Some demo_review \<and>
   (\<exists>t. (server_step demo_seed)\<^sup>*\<^sup>* lost_start t \<and> phase t = Seeded \<and>
        sent t = [json_ok (JObj demo_review)] \<and> demo_review \<notin> set (reviews (db t)))"
proof -
  have n: "assigned_id (reviews (db lost_start)) = 2" using demo_next_id by (simp add: lost_start_def)
  have h: "settled lost_start" "connected (db lost_start)"
    "phase lost_start = AwaitConnection \<or> phase lost_start = DeleteReviews"
    "seed_reviews demo_seed = Some [[(''id'', JNum 1), (''dealership'', JNum 1)]]"
    "seed_dealers demo_seed = Some [[(''id'', JNum 1), (''state'', JStr ''NY'')]]"
    "cast_doc Reviews (review_of (assigned_id (reviews (db lost_start))) demo_body) = Some demo_review"
    unfolding n
    by (simp_all add: lost_start_def demo_store_def demo_seed_def seed_reviews_def seed_dealers_def
        seed_items_def js_or_def cast_many_def cast_value_def cast_defs demo_body_def demo_review_def)
  show ?thesis using h Server.insert_lost_by_seeding [OF h]
    by (auto simp add: lost_start_def demo_review_def)
qed

theorem server_sent_shape_witness:
  "reach skip_seed demo_store race_state \<and> list_all resp_shape (sent race_state) \<and>
   sent race_state = [json_ok (JObj demo_review), json_ok (JObj other_review)]"
  using race_state_reach Server.server_sent_shape [OF race_state_reach] by (simp add: race_state_def)

theorem seeded_then_two_inserts_witness:
  "run_requests [POST [''insert_review''] spec_body, POST [''insert_review''] spec_body]
      (snd (seed_database spec_seed demo_store)) =
     ([json_ok (JObj ((''id'', JNum 1) # spec_body)), json_ok (JObj ((''id'', JNum 2) # spec_body))],
      demo_store\<lparr>reviews := [(''id'', JNum 1) # spec_body, (''id'', JNum 2) # spec_body],
                  dealerships := [[(''id'', JNum 1), (''state'', JStr ''NY'')]]\<rparr>)"
proof -
  have h: "js_truthy (reviews_data spec_seed)" "js_truthy (dealerships_data spec_seed)" "connected demo_store"
    "cast_many Reviews (seed_items ''reviews'' (reviews_data spec_seed)) = Some []"
    "cast_many Dealerships (seed_items ''dealerships'' (dealerships_data spec_seed)) =
       Some [[(''id'', JNum 1), (''state'', JStr ''NY'')]]"
    "obj_get spec_body ''id'' = None"
    "cast_doc Reviews (review_of 1 spec_body) = Some ((''id'', JNum 1) # spec_body)"
    "cast_doc Reviews (review_of 2 spec_body) = Some ((''id'', JNum 2) # spec_body)"
    by (simp_all add: spec_seed_def spec_body_def demo_store_def seed_items_def js_or_def cast_many_def
        cast_value_def cast_defs)
  show ?thesis using seeded_then_two_inserts [OF h(1-6) h(6) h(7-8)] by simp
qed

theorem run_requests_ids_distinct_witness:
  "distinct (review_ids demo_store) \<and>
   list_all no_client_id [POST [''insert_review''] demo_body, GET [''fetchReviews''], POST [''insert_review''] other_body] \<and>
   int (length [POST [''insert_review''] demo_body, GET [''fetchReviews''], POST [''insert_review''] other_body]) < 2 ^ 53 \<and>
   review_ids demo_store = [1] \<and>
   distinct (review_ids (snd (run_requests
     [POST [''insert_review''] demo_body, GET [''fetchReviews''], POST [''insert_review''] other_body] demo_store)))"
proof -
  have h: "distinct (review_ids demo_store)"
    "list_all no_client_id [POST [''insert_review''] demo_body, GET [''fetchReviews''], POST [''insert_review''] other_body]"
    "int (length [POST [''insert_review''] demo_body, GET [''fetchReviews''], POST [''insert_review''] other_body]) < 2 ^ 53"
    "\<forall>i \<in> set (review_ids demo_store).
      \<bar>i\<bar> + int (length [POST [''insert_review''] demo_body, GET [''fetchReviews''], POST [''insert_review''] other_body]) < 2 ^ 53"
    by (simp_all add: review_ids_def List.map_filter_def id_key_def demo_store_def demo_body_def other_body_def)
  have "review_ids demo_store = [1]"
    by (simp add: review_ids_def List.map_filter_def id_key_def demo_store_def)
  then show ?thesis using h Server.run_requests_ids_distinct [OF h] by blast
qed

theorem insert_progress_witness:
  "pending (race_state\<lparr>pending := [(other_body, 2)]\<rparr>) \<noteq> [] \<and>
   (\<exists>t. server_step skip_seed (race_state\<lparr>pending := [(other_body, 2)]\<rparr>) t \<and>
        length (pending t) < length (pending (race_state\<lparr>pending := [(other_body, 2)]\<rparr>)) \<and>
        length (sent t) = Suc (length (sent (race_state\<lparr>pending := [(other_body, 2)]\<rparr>))))"
proof -
  have h: "pending (race_state\<lparr>pending := [(other_body, 2)]\<rparr>) \<noteq> []" by simp
  show ?thesis by (rule conjI [OF h Server.insert_progress [OF h]])
qed

theorem app_render_one_segment_witness:
  "CHR ''/'' \<notin> set ''LOGIN'' \<and> ''LOGIN'' \<noteq> [] \<and>
   app_render ''/LOGIN/'' = Some LoginPanel \<and> app_render ''/LOGIN'' = Some LoginPanel"
proof -
  have h: "CHR ''/'' \<notin> set ''LOGIN''" "''LOGIN'' \<noteq> []" by simp_all
  have l: "seg_eq ''login'' ''LOGIN''" by (simp add: seg_eq_def lower_char_def char_of_eq_iff)
  note c = Frontend.app_render_one_segment [OF h]
  have e2: "app_render ''/LOGIN'' = Some LoginPanel" using conjunct2 [OF c] l by simp
  have e1: "app_render ''/LOGIN'' = app_render ''/LOGIN/''" using conjunct1 [OF c] by simp
  have "app_render ''/LOGIN/'' = Some LoginPanel" by (simp only: e1 [symmetric] e2)
  with h e2 show ?thesis by simp
qed

theorem app_render_only_routes_witness:
  "app_render ''/Register//'' = Some Register \<and> app_render ''//Register'' = None \<and>
   (\<exists>a k. ''/Register//'' = ''/'' @ a @ replicate k CHR ''/'' \<and> (seg_eq ''login'' a \<or> seg_eq ''register'' a))"
proof -
  have r: "app_render ''/Register//'' = Some Register"
    by (simp add: app_render_def app_routes_def route_match_def seg_eq_def lower_char_def char_of_eq_iff)
  have n: "app_render ''//Register'' = None"
    by (simp add: app_render_def app_routes_def route_match_def seg_eq_def lower_char_def char_of_eq_iff)
  from r have h: "app_render ''/Register//'' \<noteq> None" by simp
  show ?thesis using r n Frontend.app_render_only_routes [OF h] by simp
qed

theorem assigned_id_exact_iff_witness:
  "next_id_spec (reviews big_store) = 2 ^ 53 + 1 \<and> 0 \<le> (2 ^ 53 :: int) \<and> (2 ^ 53 :: int) + 1 < 2 ^ 54 \<and>
   ((2 ^ 53 :: int) < 2 ^ 53 \<or> even (2 ^ 53 :: int)) \<and>
   assigned_id (reviews big_store) \<noteq> next_id_spec (reviews big_store)"
proof -
  have h: "next_id_spec (reviews big_store) = 2 ^ 53 + 1" "0 \<le> (2 ^ 53 :: int)" "(2 ^ 53 :: int) + 1 < 2 ^ 54"
    "(2 ^ 53 :: int) < 2 ^ 53 \<or> even (2 ^ 53 :: int)"
    by (simp_all add: big_store_def demo_store_def next_id_spec_def id_key_def)
  show ?thesis using h Router.assigned_id_exact_iff [OF h] by simp
qed

theorem assigned_id_absorbed_witness:
  "next_id_spec [[(''id'', JNum (2 ^ 53 + 4))]] = (2 ^ 53 + 4) + 1 \<and> 4 dvd (2 ^ 53 + 4 :: int) \<and>
   2 ^ 53 \<le> (2 ^ 53 + 4 :: int) \<and> (2 ^ 53 + 4 :: int) < 2 ^ 54 \<and>
   assigned_id [[(''id'', JNum (2 ^ 53 + 4))]] = 2 ^ 53 + 4"
proof -
  have h: "next_id_spec [[(''id'', JNum (2 ^ 53 + 4))]] = (2 ^ 53 + 4) + 1" "4 dvd (2 ^ 53 + 4 :: int)"
    "2 ^ 53 \<le> (2 ^ 53 + 4 :: int)" "(2 ^ 53 + 4 :: int) < 2 ^ 54"
    by (simp_all add: next_id_spec_def id_key_def)
  show ?thesis using h Router.assigned_id_absorbed [OF h] by simp
qed

theorem insert_review_id_stuck_witness:
  "connected big_store \<and> obj_get demo_body ''id'' = None \<and> next_id_spec (reviews big_store) = 2 ^ 53 + 1 \<and>
   cast_doc Reviews (review_of (2 ^ 53) demo_body) = Some big_review \<and>
   insert_review demo_body big_store =
     (json_ok (JObj big_review), big_store\<lparr>reviews := reviews big_store @ [big_review]\<rparr>) \<and>
   \<not> distinct (List.map_filter id_key (reviews big_store @ [big_review]))"
proof -
  have h: "connected big_store" "obj_get demo_body ''id'' = None" "next_id_spec (reviews big_store) = 2 ^ 53 + 1"
    "cast_doc Reviews (review_of (2 ^ 53) demo_body) = Some big_review"
    by (simp_all add: big_store_def big_review_def demo_store_def demo_body_def next_id_spec_def id_key_def
        cast_defs)
  show ?thesis using h Router.insert_review_id_stuck [OF h] by simp
qed

theorem parse_body_form_roundtrip_witness:
  "distinct (map fst demo_form) \<and> length (form_encode demo_form) \<le> body_limit \<and> length demo_form \<le> 1000 \<and>
   parse_body (FormBody (form_encode demo_form)) = Inr (JObj [(''dealership'', JStr ''7''), (''name'', JStr ''Ann Lee'')])"
proof -
  have h: "distinct (map fst demo_form)" "length (form_encode demo_form) \<le> body_limit" "length demo_form \<le> 1000"
    by (simp_all add: demo_form_def pct_encode_def enc_char_def form_safe_def hex_digit_def body_limit_def)
  show ?thesis using h Http.parse_body_form_roundtrip [OF h] by (simp add: demo_form_def)
qed

theorem serve_form_insert_witness:
  "connected demo_store \<and> distinct (map fst demo_form) \<and> ''id'' \<notin> fst ` set demo_form \<and>
   length (form_encode demo_form) \<le> body_limit \<and> length demo_form \<le> 1000 \<and>
   \<bar>next_id_spec (reviews demo_store)\<bar> < 2 ^ 53 \<and>
   serve (HPost [''insert_review''] (FormBody (form_encode demo_form))) demo_store =
     (json_ok (JObj [(''id'', JNum 2), (''dealership'', JNum 7), (''name'', JStr ''Ann Lee'')]),
      demo_store\<lparr>reviews := reviews demo_store @ [[(''id'', JNum 2), (''dealership'', JNum 7), (''name'', JStr ''Ann Lee'')]]\<rparr>)"
proof -
  have d: "distinct (map fst demo_form)" "''id'' \<notin> fst ` set demo_form" "length demo_form \<le> 1000"
    by (simp_all add: demo_form_def)
  have l: "length (form_encode demo_form) \<le> body_limit"
    by (simp add: demo_form_def pct_encode_def enc_char_def form_safe_def hex_digit_def body_limit_def)
  have n: "\<bar>next_id_spec (reviews demo_store)\<bar> < 2 ^ 53" by (simp add: demo_next_id)
  have c: "cast_doc Reviews (review_of (next_id_spec (reviews demo_store)) (map (\<lambda>(k, v). (k, JStr v)) demo_form)) =
      Some [(''id'', JNum 2), (''dealership'', JNum 7), (''name'', JStr ''Ann Lee'')]"
    unfolding demo_next_id
    by (simp add: demo_form_def cast_defs js_string_to_int_def str_int_math_def to_double_small js_trim_def js_ws_def all_digits_def digit_val_def
        take_digits_def digits_value_def)
  note h = demo_connected d(1,2) l d(3) n c
  show ?thesis using h Http.serve_form_insert [OF h] by simp
qed

theorem listen_addr_port_witness:
  "list_all (\<lambda>c. digit_val 10 c = None) (js_trim ''abc'') \<and> js_trim ''abc'' \<noteq> [] \<and>
   unsigned_part (js_trim ''abc'') \<noteq> ''Infinity'' \<and>
   listen_addr ((\<lambda>k. None)(''PORT'' := Some ''abc'')) = Some (PipePath ''abc'') \<and>
   listen_addr ((\<lambda>k. None)(''PORT'' := Some (nat_to_dec 70000))) = Some BadPort"
proof -
  have t: "js_trim ''abc'' = ''abc''" by (simp add: js_trim_def js_ws_def)
  have h: "list_all (\<lambda>c. digit_val 10 c = None) (js_trim ''abc'') \<and> js_trim ''abc'' \<noteq> [] \<and>
      unsigned_part (js_trim ''abc'') \<noteq> ''Infinity''"
    unfolding t by (simp add: digit_val_def unsigned_part_def)
  show ?thesis using h Http.listen_addr_port [of "\<lambda>k. None" 70000 "''abc''"] by simp
qed

theorem serve_no_body_inserts_id_only_witness:
  "connected demo_store \<and> \<bar>next_id_spec (reviews demo_store)\<bar> < 2 ^ 53 \<and>
   serve (HPost [''insert_review''] NoBody) demo_store =
     (json_ok (JObj [(''id'', JNum 2)]), demo_store\<lparr>reviews := reviews demo_store @ [[(''id'', JNum 2)]]\<rparr>)"
proof -
  have n: "\<bar>next_id_spec (reviews demo_store)\<bar> < 2 ^ 53" by (simp add: demo_next_id)
  show ?thesis using demo_connected n Http.serve_no_body_inserts_id_only [OF demo_connected n]
    by (simp add: demo_next_id)
qed

theorem serve_only_insert_writes_witness:
  "snd (serve (HPost [''Insert_Review''] NoBody) demo_store) \<noteq> demo_store \<and>
   snd (serve (HPost [''Insert_Review''] NoBody) demo_store) =
     demo_store\<lparr>reviews := reviews demo_store @ [[(''id'', JNum 2)]]\<rparr>"
proof -
  have c: "cast_doc Reviews (review_of 2 []) = Some [(''id'', JNum 2)]"
    by (simp add: cast_defs)
  have s: "snd (serve (HPost [''Insert_Review''] NoBody) demo_store) =
      demo_store\<lparr>reviews := reviews demo_store @ [[(''id'', JNum 2)]]\<rparr>"
    using insert_review_connected [OF demo_connected] save_Reviews [OF demo_connected c]
    by (simp add: demo_next_id seg_eq_def lower_char_def char_of_eq_iff)
  then have h: "snd (serve (HPost [''Insert_Review''] NoBody) demo_store) \<noteq> demo_store"
    by (simp add: demo_store_def)
  from Http.serve_only_insert_writes [OF h] s h show ?thesis by simp
qed

end
